theory Spec2Isabelle
  imports Main "HOL-Library.Sublist"
begin

section \<open>Python values and built-ins used by story\_processor.py\<close>

text \<open>
  The program is one Python module, \<^verbatim>\<open>src/story_processor.py\<close>. Its strings are
  modelled as \<^typ>\<open>string\<close>: lists of 8-bit characters, read as the code points 0..255.
  Every exception the module can raise is a constructor of \<open>error\<close>; a call that may
  raise returns \<open>error + 'a\<close> with \<open>Inl\<close> for the exception. Output written with
  \<^verbatim>\<open>print\<close> is not modelled.
\<close>

datatype error =
    ValueError string
  | AttributeError
  | IndexError
  | KeyError string
  | AssertionError
  | FileNotFoundError string
  | UnicodeDecodeError string
  | RuntimeError string
  | UnpicklingError string

text \<open>\<^verbatim>\<open>str.isspace\<close> on one character: the code points below 256 that Python counts
  as whitespace.\<close>

definition py_isspace :: "char \<Rightarrow> bool" where
  "py_isspace c = (of_char c \<in> {9, 10, 11, 12, 13, 28, 29, 30, 31, 32, 133, 160 :: nat})"

text \<open>\<^verbatim>\<open>str.lower\<close>: A-Z and the Latin-1 capitals (0xC0-0xDE without 0xD7) move up
  by 32, every other code point below 256 stays.\<close>

definition py_lower_char :: "char \<Rightarrow> char" where
  "py_lower_char c =
     (let n = (of_char c :: nat) in
      if (65 \<le> n \<and> n \<le> 90) \<or> (192 \<le> n \<and> n \<le> 222 \<and> n \<noteq> 215)
      then char_of (n + 32) else c)"

definition py_lower :: "string \<Rightarrow> string" where
  "py_lower s = map py_lower_char s"

text \<open>\<^verbatim>\<open>str.strip()\<close>: whitespace removed at both ends.\<close>

definition py_strip :: "string \<Rightarrow> string" where
  "py_strip s = rev (dropWhile py_isspace (rev (dropWhile py_isspace s)))"

text \<open>\<^verbatim>\<open>sub in s\<close> on strings: \<open>sub\<close> occurs in \<open>s\<close> as a contiguous block.\<close>

fun py_in :: "string \<Rightarrow> string \<Rightarrow> bool" where
  "py_in sub [] = (sub = [])"
| "py_in sub (c # cs) = (prefix sub (c # cs) \<or> py_in sub cs)"

text \<open>\<^verbatim>\<open>s.split(sep)\<close> for a one-character separator: every occurrence cuts, empty
  pieces are kept, and the result is never empty.\<close>

fun py_split :: "char \<Rightarrow> string \<Rightarrow> string list" where
  "py_split sep [] = [[]]"
| "py_split sep (c # cs) =
     (if c = sep then [] # py_split sep cs
      else (case py_split sep cs of [] \<Rightarrow> [[c]] | piece # pieces \<Rightarrow> (c # piece) # pieces))"

text \<open>\<^verbatim>\<open>sep.join(parts)\<close>.\<close>

fun py_join :: "string \<Rightarrow> string list \<Rightarrow> string" where
  "py_join sep [] = []"
| "py_join sep [p] = p"
| "py_join sep (p # q # ps) = p @ sep @ py_join sep (q # ps)"

text \<open>\<^verbatim>\<open>s.replace(old, new)\<close>: the occurrences of \<open>old\<close> are found from the left and do
  not overlap. \<open>replace_scan\<close> walks the string; its counter is the number of characters
  of the occurrence just replaced that are still to be skipped. For an empty \<open>old\<close>
  Python puts \<open>new\<close> before every character and at the end.\<close>

fun replace_scan :: "string \<Rightarrow> string \<Rightarrow> nat \<Rightarrow> string \<Rightarrow> string" where
  "replace_scan old new skip [] = []"
| "replace_scan old new (Suc skip) (c # cs) = replace_scan old new skip cs"
| "replace_scan old new 0 (c # cs) =
     (if prefix old (c # cs) then new @ replace_scan old new (length old - 1) cs
      else c # replace_scan old new 0 cs)"

definition py_replace :: "string \<Rightarrow> string \<Rightarrow> string \<Rightarrow> string" where
  "py_replace old new s =
     (if old = [] then new @ concat (map (\<lambda>c. c # new) s) else replace_scan old new 0 s)"

text \<open>\<^verbatim>\<open>xs[i]\<close> on a list: a negative index counts from the end, an index outside the
  list raises \<open>IndexError\<close>.\<close>

definition py_getitem :: "'a list \<Rightarrow> int \<Rightarrow> error + 'a" where
  "py_getitem xs i =
     (if 0 \<le> i \<and> i < int (length xs) then Inr (xs ! nat i)
      else if i < 0 \<and> - int (length xs) \<le> i then Inr (xs ! nat (int (length xs) + i))
      else Inl IndexError)"

text \<open>The comprehension \<^verbatim>\<open>[xs[i] for i in ids]\<close>: the first failing subscript raises.\<close>

fun getitems :: "'a list \<Rightarrow> int list \<Rightarrow> error + 'a list" where
  "getitems xs [] = Inr []"
| "getitems xs (i # ids) =
     (case py_getitem xs i of
        Inl e \<Rightarrow> Inl e
      | Inr x \<Rightarrow> (case getitems xs ids of Inl e \<Rightarrow> Inl e | Inr ys \<Rightarrow> Inr (x # ys)))"

text \<open>A dictionary with string keys is the list of its items in insertion order;
  \<^verbatim>\<open>d[key]\<close> raises on a missing key.\<close>

definition dict_get :: "(string \<times> 'b) list \<Rightarrow> string \<Rightarrow> error + 'b" where
  "dict_get d key = (case map_of d key of None \<Rightarrow> Inl (KeyError key) | Some v \<Rightarrow> Inr v)"

section \<open>The vector index (faiss.IndexFlatL2)\<close>

text \<open>
  The module stores its vectors in a \<^verbatim>\<open>faiss.IndexFlatL2\<close> (line 57), a library object.
  Its documented behaviour is modelled here: the index keeps its dimension and the
  vectors in insertion order, the id of a vector is its position, and a search over one
  query returns exactly \<open>k\<close> (distance, label) pairs: the nearest vectors by squared
  Euclidean distance in ascending order and, when the index holds fewer than \<open>k\<close>
  vectors, the label \<open>-1\<close> in every remaining place (the distance there is the largest
  float, \<open>None\<close> below). The Python wrapper asserts that the query has the index's
  dimension and that \<open>k\<close> is positive. Coordinates are elements of an ordered ring, so
  float32 rounding is not modelled; vectors at the same distance are listed in id order.
\<close>

datatype 'a IndexFlatL2 = IndexFlatL2 (ix_d: nat) (ix_xb: "'a list list")

definition ntotal :: "'a IndexFlatL2 \<Rightarrow> nat" where
  "ntotal idx = length (ix_xb idx)"

definition l2sqr :: "'a::linordered_idom list \<Rightarrow> 'a list \<Rightarrow> 'a" where
  "l2sqr x y = sum_list (map (\<lambda>(a, b). (a - b) * (a - b)) (zip x y))"

definition index_add :: "'a IndexFlatL2 \<Rightarrow> 'a list list \<Rightarrow> error + 'a IndexFlatL2" where
  "index_add idx vs =
     (if list_all (\<lambda>v. length v = ix_d idx) vs
      then Inr (IndexFlatL2 (ix_d idx) (ix_xb idx @ vs))
      else Inl AssertionError)"

definition nearest :: "'a::linordered_idom IndexFlatL2 \<Rightarrow> 'a list \<Rightarrow> nat \<Rightarrow> ('a \<times> nat) list" where
  "nearest idx q k =
     take k (sort_key fst (map (\<lambda>(i, v). (l2sqr q v, i)) (enumerate 0 (ix_xb idx))))"

definition index_search ::
  "'a::linordered_idom IndexFlatL2 \<Rightarrow> 'a list \<Rightarrow> int \<Rightarrow> error + ('a option \<times> int) list" where
  "index_search idx q k =
     (if length q = ix_d idx \<and> 0 < k then
        Inr (map (\<lambda>(dist, i). (Some dist, int i)) (nearest idx q (nat k))
             @ replicate (nat k - length (nearest idx q (nat k))) (None, - 1))
      else Inl AssertionError)"

section \<open>The text splitter (langchain RecursiveCharacterTextSplitter)\<close>

text \<open>
  Lines 33-37 configure a library object: \<^verbatim>\<open>RecursiveCharacterTextSplitter\<close> with
  \<^verbatim>\<open>chunk_size=1000\<close>, \<^verbatim>\<open>chunk_overlap=200\<close>, \<^verbatim>\<open>length_function=len\<close> and the
  library's defaults for the rest: the separators \<^verbatim>\<open>["\n\n", "\n", " ", ""]\<close> taken
  literally, \<^verbatim>\<open>keep_separator=True\<close> and \<^verbatim>\<open>strip_whitespace=True\<close>. The definitions
  below follow the library's methods of the same names for that configuration.
\<close>

record TextSplitter =
  chunk_size :: nat
  chunk_overlap :: nat

definition text_splitter :: TextSplitter where
  "text_splitter = \<lparr>chunk_size = 1000, chunk_overlap = 200\<rparr>"

definition default_separators :: "string list" where
  "default_separators = [[CHR 0x0A, CHR 0x0A], [CHR 0x0A], '' '', []]"

text \<open>\<^verbatim>\<open>_split_text_with_regex\<close> with the separator kept: the text is cut in front of
  every occurrence of the separator (found from the left, not overlapping), so each
  piece but the first starts with the separator; an empty separator cuts the text into
  its characters; empty pieces are dropped. The counter of \<open>split_scan\<close> is the number
  of characters of the separator just met that are still to be passed over.\<close>

fun split_scan :: "string \<Rightarrow> nat \<Rightarrow> string \<Rightarrow> string \<Rightarrow> string list" where
  "split_scan separator skip piece [] = [piece]"
| "split_scan separator (Suc skip) piece (c # cs) = split_scan separator skip piece cs"
| "split_scan separator 0 piece (c # cs) =
     (if prefix separator (c # cs)
      then piece # split_scan separator (length separator - 1) separator cs
      else split_scan separator 0 (piece @ [c]) cs)"

definition split_text_with_regex :: "string \<Rightarrow> string \<Rightarrow> string list" where
  "split_text_with_regex text separator =
     filter (\<lambda>s. s \<noteq> [])
       (if separator \<noteq> [] then split_scan separator 0 [] text else map (\<lambda>c. [c]) text)"

text \<open>\<^verbatim>\<open>_join_docs\<close>: the pieces joined and stripped; nothing when that is empty.\<close>

definition join_docs :: "string list \<Rightarrow> string \<Rightarrow> string option" where
  "join_docs docs separator =
     (let text = py_strip (py_join separator docs) in if text = [] then None else Some text)"

text \<open>The inner \<^verbatim>\<open>while\<close> of \<^verbatim>\<open>_merge_splits\<close>: pieces leave the front of
  \<^verbatim>\<open>current_doc\<close> while more than the overlap is kept or the next piece would not
  fit. \<^verbatim>\<open>current_doc[0]\<close> on an empty list raises.\<close>

fun pop_overlap :: "TextSplitter \<Rightarrow> int \<Rightarrow> int \<Rightarrow> int \<Rightarrow> string list \<Rightarrow> error + (int \<times> string list)" where
  "pop_overlap ts separator_len len tot [] =
     (if tot > int (chunk_overlap ts) \<or> (tot + len > int (chunk_size ts) \<and> tot > 0)
      then Inl IndexError else Inr (tot, []))"
| "pop_overlap ts separator_len len tot (doc0 # rest) =
     (if tot > int (chunk_overlap ts)
         \<or> (tot + len + separator_len > int (chunk_size ts) \<and> tot > 0)
      then pop_overlap ts separator_len len
             (tot - (int (length doc0) + (if rest = [] then 0 else separator_len))) rest
      else Inr (tot, doc0 # rest))"

text \<open>\<^verbatim>\<open>doc = self._join_docs(current_doc, separator)\<close> followed by
  \<^verbatim>\<open>if doc is not None: docs.append(doc)\<close>: the documents appended.\<close>

definition emit_doc :: "string list \<Rightarrow> string \<Rightarrow> string list" where
  "emit_doc current_doc separator =
     (case join_docs current_doc separator of None \<Rightarrow> [] | Some doc \<Rightarrow> [doc])"

text \<open>One turn of the \<^verbatim>\<open>for\<close> loop of \<^verbatim>\<open>_merge_splits\<close> on the piece \<open>d\<close>; the state
  is (\<^verbatim>\<open>docs\<close>, \<^verbatim>\<open>current_doc\<close>, \<^verbatim>\<open>total\<close>). The library's \<^verbatim>\<open>total\<close> is written
  \<open>tot\<close> here and in \<open>pop_overlap\<close>.\<close>

definition merge_step ::
  "TextSplitter \<Rightarrow> string \<Rightarrow> string \<Rightarrow> string list \<times> string list \<times> int
     \<Rightarrow> error + (string list \<times> string list \<times> int)" where
  "merge_step ts separator d state =
     (case state of (docs, current_doc, tot) \<Rightarrow>
        (let separator_len = int (length separator);
             len = int (length d);
             flushed =
               (if tot + len + (if current_doc = [] then 0 else separator_len)
                     > int (chunk_size ts) \<and> current_doc \<noteq> []
                then (case pop_overlap ts separator_len len tot current_doc of
                        Inl e \<Rightarrow> Inl e
                      | Inr (tot1, current_doc1) \<Rightarrow>
                          Inr (docs @ emit_doc current_doc separator, current_doc1, tot1))
                else Inr (docs, current_doc, tot))
         in case flushed of
              Inl e \<Rightarrow> Inl e
            | Inr (docs1, current_doc1, tot1) \<Rightarrow>
                Inr (docs1, current_doc1 @ [d],
                     tot1 + len + (if current_doc1 = [] then 0 else separator_len))))"

fun merge_loop ::
  "TextSplitter \<Rightarrow> string \<Rightarrow> string list \<times> string list \<times> int \<Rightarrow> string list
     \<Rightarrow> error + (string list \<times> string list \<times> int)" where
  "merge_loop ts separator state [] = Inr state"
| "merge_loop ts separator state (d # ds) =
     (case merge_step ts separator d state of
        Inl e \<Rightarrow> Inl e
      | Inr state1 \<Rightarrow> merge_loop ts separator state1 ds)"

definition merge_splits :: "TextSplitter \<Rightarrow> string list \<Rightarrow> string \<Rightarrow> error + string list" where
  "merge_splits ts splits separator =
     (case merge_loop ts separator ([], [], 0) splits of
        Inl e \<Rightarrow> Inl e
      | Inr (docs, current_doc, tot) \<Rightarrow> Inr (docs @ emit_doc current_doc separator))"

text \<open>The separator loop at the head of \<^verbatim>\<open>_split_text\<close>: the first separator that is
  empty or occurs in the text, with the separators after it (none after the empty one).
  \<open>None\<close> when the loop ends without a \<^verbatim>\<open>break\<close>.\<close>

fun choose_separator :: "string list \<Rightarrow> string \<Rightarrow> (string \<times> string list) option" where
  "choose_separator [] text = None"
| "choose_separator (s # rest) text =
     (if s = [] then Some ([], [])
      else if py_in s text then Some (s, rest)
      else choose_separator rest text)"

lemma choose_separator_shorter:
  "choose_separator separators text = Some (separator, new_separators)
   \<Longrightarrow> length new_separators < length separators"
  by (induction separators) (auto split: if_splits)

definition flush_good :: "TextSplitter \<Rightarrow> string list \<Rightarrow> error + string list" where
  "flush_good ts good_splits =
     (if good_splits = [] then Inr [] else merge_splits ts good_splits [])"

text \<open>\<^verbatim>\<open>_split_text\<close> and its \<^verbatim>\<open>for\<close> loop over the pieces, whose state is
  (\<^verbatim>\<open>final_chunks\<close>, \<^verbatim>\<open>_good_splits\<close>). With the separator kept, the pieces are merged
  with the empty separator. \<^verbatim>\<open>separators[-1]\<close> raises on an empty list.\<close>

function split_text_rec :: "TextSplitter \<Rightarrow> string list \<Rightarrow> string \<Rightarrow> error + string list"
  and split_loop ::
    "TextSplitter \<Rightarrow> string list \<Rightarrow> string list \<Rightarrow> string list \<Rightarrow> string list
       \<Rightarrow> error + string list" where
  "split_text_rec ts [] text = Inl IndexError"
| "split_text_rec ts (s # rest) text =
     (case choose_separator (s # rest) text of
        None \<Rightarrow>
          split_loop ts [] [] [] (split_text_with_regex text (last (s # rest)))
      | Some (separator, new_separators) \<Rightarrow>
          split_loop ts new_separators [] [] (split_text_with_regex text separator))"
| "split_loop ts new_separators final_chunks good_splits [] =
     (case flush_good ts good_splits of
        Inl e \<Rightarrow> Inl e
      | Inr merged \<Rightarrow> Inr (final_chunks @ merged))"
| "split_loop ts new_separators final_chunks good_splits (p # ps) =
     (if length p < chunk_size ts
      then split_loop ts new_separators final_chunks (good_splits @ [p]) ps
      else (case flush_good ts good_splits of
              Inl e \<Rightarrow> Inl e
            | Inr merged \<Rightarrow>
                (if new_separators = []
                 then split_loop ts new_separators (final_chunks @ merged @ [p]) [] ps
                 else (case split_text_rec ts new_separators p of
                         Inl e \<Rightarrow> Inl e
                       | Inr other_info \<Rightarrow>
                           split_loop ts new_separators (final_chunks @ merged @ other_info) [] ps))))"
  by pat_completeness auto

termination
  by (relation "inv_image (less_than <*lex*> less_than)
        (\<lambda>a. case a of
           Inl (ts, separators, text) \<Rightarrow> (length separators, 0)
         | Inr (ts, new_separators, final_chunks, good_splits, splits) \<Rightarrow>
             (length new_separators, Suc (length splits)))")
     (auto split: if_splits dest: choose_separator_shorter less_SucI)

definition split_text :: "string \<Rightarrow> error + string list" where
  "split_text text = split_text_rec text_splitter default_separators text"

section \<open>Files\<close>

text \<open>
  The module reads and writes files: the index through \<^verbatim>\<open>faiss.write_index\<close> and
  \<^verbatim>\<open>faiss.read_index\<close>, the store through \<^verbatim>\<open>pickle\<close>, the story files as UTF-8 text.
  A file system maps a path to what the file holds; the serialised forms are not
  modelled, so a file written by \<^verbatim>\<open>write_index\<close> or \<^verbatim>\<open>pickle.dump\<close> holds the value that
  was written. Reading a file of the wrong kind, or a missing one, raises. The store
  file holds the dictionary \<^verbatim>\<open>{"texts": ..., "metadatas": ...}\<close> of lines 63-66.
\<close>

datatype 'a file_data =
    TextFile string
  | FaissFile "'a IndexFlatL2"
  | PickleFile "string list" "(string \<times> string) list list"

definition path_exists :: "(string \<rightharpoonup> 'a file_data) \<Rightarrow> string \<Rightarrow> bool" where
  "path_exists fs path = (fs path \<noteq> None)"

definition read_text :: "(string \<rightharpoonup> 'a file_data) \<Rightarrow> string \<Rightarrow> error + string" where
  "read_text fs path =
     (case fs path of
        None \<Rightarrow> Inl (FileNotFoundError path)
      | Some (TextFile content) \<Rightarrow> Inr content
      | Some _ \<Rightarrow> Inl (UnicodeDecodeError path))"

definition read_index :: "(string \<rightharpoonup> 'a file_data) \<Rightarrow> string \<Rightarrow> error + 'a IndexFlatL2" where
  "read_index fs path =
     (case fs path of
        Some (FaissFile idx) \<Rightarrow> Inr idx
      | _ \<Rightarrow> Inl (RuntimeError path))"

definition pickle_load ::
  "(string \<rightharpoonup> 'a file_data) \<Rightarrow> string \<Rightarrow> error + (string list \<times> (string \<times> string) list list)" where
  "pickle_load fs path =
     (case fs path of
        None \<Rightarrow> Inl (FileNotFoundError path)
      | Some (PickleFile ts ms) \<Rightarrow> Inr (ts, ms)
      | Some _ \<Rightarrow> Inl (UnpicklingError path))"

section \<open>The processor\<close>

text \<open>
  \<open>StoryProcessor\<close> (lines 30-42). The fields \<^verbatim>\<open>model\<close>, \<^verbatim>\<open>text_splitter\<close>,
  \<^verbatim>\<open>index_path\<close> and \<^verbatim>\<open>store_path\<close> never change after \<^verbatim>\<open>__init__\<close>; the record
  holds the three fields that do. A metadata entry is the dictionary
  \<^verbatim>\<open>{"source": path}\<close>. The sentence-embedding model is a library object: the
  functions below take it as the parameter \<open>enc\<close>, the vector it computes for one text.
\<close>

record 'a StoryProcessor =
  index :: "'a IndexFlatL2 option"
  texts :: "string list"
  metadatas :: "(string \<times> string) list list"

definition init_processor :: "'a StoryProcessor" where
  "init_processor = \<lparr>index = None, texts = [], metadatas = []\<rparr>"

definition index_path :: string where
  "index_path = ''story_index.faiss''"

definition store_path :: string where
  "store_path = ''story_store.pkl''"

text \<open>\<open>find_relevant_chunks\<close> (lines 68-71). The query is embedded first; \<^verbatim>\<open>self.index\<close>
  being \<^verbatim>\<open>None\<close> makes the attribute access \<^verbatim>\<open>.search\<close> raise; the labels of the one
  result row subscript \<^verbatim>\<open>self.texts\<close>.\<close>

definition find_relevant_chunks ::
  "(string \<Rightarrow> 'a::linordered_idom list) \<Rightarrow> 'a StoryProcessor \<Rightarrow> string \<Rightarrow> int \<Rightarrow> error + string list" where
  "find_relevant_chunks enc st query k =
     (let query_vector = enc query in
      case index st of
        None \<Rightarrow> Inl AttributeError
      | Some idx \<Rightarrow>
          (case index_search idx query_vector k of
             Inl e \<Rightarrow> Inl e
           | Inr DI \<Rightarrow> getitems (texts st) (map snd DI)))"

text \<open>\<open>process_stories\<close> (lines 44-66). A story is a langchain \<^verbatim>\<open>Document\<close>: its text
  and its metadata dictionary. The loop of lines 46-50 extends \<^verbatim>\<open>self.texts\<close> and
  \<^verbatim>\<open>self.metadatas\<close> in place, so an exception leaves the processor as far as it got:
  every call returns its outcome together with the processor (and the files) after it.\<close>

record Document =
  page_content :: string
  metadata :: "(string \<times> string) list"

fun add_stories :: "'a StoryProcessor \<Rightarrow> Document list \<Rightarrow> (error + unit) \<times> 'a StoryProcessor" where
  "add_stories st [] = (Inr (), st)"
| "add_stories st (story # stories) =
     (case dict_get (metadata story) ''source'' of
        Inl e \<Rightarrow> (Inl e, st)
      | Inr src \<Rightarrow>
          (case split_text (page_content story) of
             Inl e \<Rightarrow> (Inl e, st)
           | Inr chunks \<Rightarrow>
               add_stories
                 (st\<lparr>texts := texts st @ chunks,
                     metadatas := metadatas st @ map (\<lambda>_. [(''source'', src)]) chunks\<rparr>)
                 stories))"

text \<open>Lines 52-66. The embeddings are one row per text; \<^verbatim>\<open>embeddings.shape[1]\<close> raises
  when there is no text at all (the encoder returns an empty one-dimensional array).\<close>

definition process_stories ::
  "(string \<Rightarrow> 'a list) \<Rightarrow> (string \<rightharpoonup> 'a file_data) \<Rightarrow> 'a StoryProcessor \<Rightarrow> Document list
     \<Rightarrow> (error + unit) \<times> 'a StoryProcessor \<times> (string \<rightharpoonup> 'a file_data)" where
  "process_stories enc fs st stories =
     (case add_stories st stories of
        (Inl e, st1) \<Rightarrow> (Inl e, st1, fs)
      | (Inr u, st1) \<Rightarrow>
          (case map enc (texts st1) of
             [] \<Rightarrow> (Inl IndexError, st1, fs)
           | row # rows \<Rightarrow>
               (let embeddings = row # rows;
                    dimension = length row
                in case index_add (IndexFlatL2 dimension []) embeddings of
                     Inl e \<Rightarrow> (Inl e, st1\<lparr>index := Some (IndexFlatL2 dimension [])\<rparr>, fs)
                   | Inr idx \<Rightarrow>
                       (Inr (),
                        st1\<lparr>index := Some idx\<rparr>,
                        fs(index_path \<mapsto> FaissFile idx,
                           store_path \<mapsto> PickleFile (texts st1) (metadatas st1))))))"

text \<open>\<open>CharacterInfo\<close> (lines 13-19). A relation is the dictionary
  \<^verbatim>\<open>{"name": ..., "relation": ...}\<close>.\<close>

record CharacterInfo =
  name :: string
  storyTitle :: string
  summary :: string
  relations :: "(string \<times> string) list list"
  characterType :: string

text \<open>Lines 76-85 of \<open>get_character_info\<close>: the lazy load. \<^verbatim>\<open>self.index\<close> is assigned
  before the store file is opened.\<close>

definition load_store ::
  "(string \<rightharpoonup> 'a file_data) \<Rightarrow> 'a StoryProcessor \<Rightarrow> (error + unit) \<times> 'a StoryProcessor" where
  "load_store fs st =
     (if index st = None then
        (if \<not> path_exists fs index_path \<or> \<not> path_exists fs store_path
         then (Inl (ValueError ''No index found. Please process stories first.''), st)
         else (case read_index fs index_path of
                 Inl e \<Rightarrow> (Inl e, st)
               | Inr idx \<Rightarrow>
                   (case pickle_load fs store_path of
                      Inl e \<Rightarrow> (Inl e, st\<lparr>index := Some idx\<rparr>)
                    | Inr (ts, ms) \<Rightarrow>
                        (Inr (), st\<lparr>index := Some idx, texts := ts, metadatas := ms\<rparr>))))
      else (Inr (), st))"

text \<open>Lines 87-97: the four queries, in the order of the dictionary, and the loop that
  joins the chunks found for each. The default \<open>k = 5\<close> of \<open>find_relevant_chunks\<close> is
  used.\<close>

definition queries :: "string \<Rightarrow> (string \<times> string) list" where
  "queries character_name =
     [(''story_title'', ''story title '' @ character_name),
      (''summary'', ''summary of '' @ character_name @ [CHR 0x27] @ ''s role''),
      (''relations'', ''relationships of '' @ character_name),
      (''character_type'', ''character type role of '' @ character_name)]"

fun collect_chunks ::
  "(string \<Rightarrow> 'a::linordered_idom list) \<Rightarrow> 'a StoryProcessor \<Rightarrow> (string \<times> string) list
     \<Rightarrow> error + (string \<times> string) list" where
  "collect_chunks enc st [] = Inr []"
| "collect_chunks enc st ((aspect, query) # rest) =
     (case find_relevant_chunks enc st query 5 of
        Inl e \<Rightarrow> Inl e
      | Inr chunks \<Rightarrow>
          (case collect_chunks enc st rest of
             Inl e \<Rightarrow> Inl e
           | Inr relevant_chunks \<Rightarrow> Inr ((aspect, py_join '' '' chunks) # relevant_chunks)))"

text \<open>Lines 99-103: every metadata entry's source file is opened and read, and the sources
  whose lowered text contains the lowered name are collected in a set. The set is the
  list of its members, each once.\<close>

fun scan_sources ::
  "(string \<rightharpoonup> 'a file_data) \<Rightarrow> string \<Rightarrow> string list \<Rightarrow> (string \<times> string) list list
     \<Rightarrow> error + string list" where
  "scan_sources fs character_name story_sources [] = Inr story_sources"
| "scan_sources fs character_name story_sources (m # ms) =
     (case dict_get m ''source'' of
        Inl e \<Rightarrow> Inl e
      | Inr source \<Rightarrow>
          (case read_text fs source of
             Inl e \<Rightarrow> Inl e
           | Inr content \<Rightarrow>
               scan_sources fs character_name
                 (if py_in (py_lower character_name) (py_lower content)
                  then (if source \<in> set story_sources then story_sources
                        else story_sources @ [source])
                  else story_sources)
                 ms))"

text \<open>\<^verbatim>\<open>next(iter(story_sources))\<close> (line 108): the member the set's iteration visits
  first. Python does not fix the iteration order of a set of strings, so the choice is the
  parameter \<open>pick\<close>: any member can be the first.\<close>

definition next_iter :: "nat \<Rightarrow> 'b list \<Rightarrow> 'b" where
  "next_iter pick members = members ! (pick mod length members)"

text \<open>Lines 111-118: the sentences of the relations text that contain the name.\<close>

definition extract_relations :: "string \<Rightarrow> string \<Rightarrow> (string \<times> string) list list" where
  "extract_relations character_name relations_text =
     (if relations_text \<noteq> [] then
        map (\<lambda>sentence. [(''name'', ''Unknown''), (''relation'', py_strip sentence)])
          (filter (\<lambda>sentence. py_in character_name sentence)
             (py_split (CHR ''.'') relations_text))
      else [])"

text \<open>Lines 120-127: the character type, from the lowered text.\<close>

definition character_type_of :: "string \<Rightarrow> string" where
  "character_type_of text =
     (let character_type = ''Supporting Character'';
          type_text = py_lower text
      in if py_in ''protagonist'' type_text then ''Protagonist''
         else if py_in ''antagonist'' type_text then ''Antagonist''
         else if py_in ''main'' type_text then ''Main Character''
         else character_type)"

text \<open>Lines 87-135: the lookup on a processor whose index is resident. It changes
  nothing in the processor.\<close>

definition lookup_resident ::
  "(string \<Rightarrow> 'a::linordered_idom list) \<Rightarrow> nat \<Rightarrow> (string \<rightharpoonup> 'a file_data) \<Rightarrow> 'a StoryProcessor
     \<Rightarrow> string \<Rightarrow> error + CharacterInfo option" where
  "lookup_resident enc pick fs st character_name =
     (case collect_chunks enc st (queries character_name) of
        Inl e \<Rightarrow> Inl e
      | Inr relevant_chunks \<Rightarrow>
          (case scan_sources fs character_name [] (metadatas st) of
             Inl e \<Rightarrow> Inl e
           | Inr story_sources \<Rightarrow>
               (if story_sources = [] then Inr None
                else
                  (case dict_get relevant_chunks ''summary'' of
                     Inl e \<Rightarrow> Inl e
                   | Inr summary_text \<Rightarrow>
                       (case dict_get relevant_chunks ''relations'' of
                          Inl e \<Rightarrow> Inl e
                        | Inr relations_text \<Rightarrow>
                            (case dict_get relevant_chunks ''character_type'' of
                               Inl e \<Rightarrow> Inl e
                             | Inr type_text \<Rightarrow>
                                 Inr (Some
                                   \<lparr>name = character_name,
                                    storyTitle =
                                      py_replace ''.txt'' [] (next_iter pick story_sources),
                                    summary = take 500 summary_text,
                                    relations =
                                      take 3 (extract_relations character_name relations_text),
                                    characterType = character_type_of type_text\<rparr>)))))))"

text \<open>\<open>get_character_info\<close> (lines 73-135).\<close>

definition get_character_info ::
  "(string \<Rightarrow> 'a::linordered_idom list) \<Rightarrow> nat \<Rightarrow> (string \<rightharpoonup> 'a file_data) \<Rightarrow> 'a StoryProcessor
     \<Rightarrow> string \<Rightarrow> (error + CharacterInfo option) \<times> 'a StoryProcessor" where
  "get_character_info enc pick fs st character_name =
     (case load_store fs st of
        (Inl e, st1) \<Rightarrow> (Inl e, st1)
      | (Inr u, st1) \<Rightarrow> (lookup_resident enc pick fs st1 character_name, st1))"

section \<open>The specification's wording\<close>

text \<open>The specification gives the character type as an ordered list of keyword tests
  on the lowered text, the first hit deciding, with a default.\<close>

definition spec_character_type :: "string \<Rightarrow> string" where
  "spec_character_type text =
     (case find (\<lambda>(keyword, label). py_in keyword (py_lower text))
             [(''protagonist'', ''Protagonist''), (''antagonist'', ''Antagonist''),
              (''main'', ''Main Character'')] of
        Some (keyword, label) \<Rightarrow> label
      | None \<Rightarrow> ''Supporting Character'')"

text \<open>The specification's relations: the text split on the full stop, the sentences that
  contain the name, each trimmed and paired with the name \<open>Unknown\<close>, at most the first
  three.\<close>

definition spec_relations :: "string \<Rightarrow> string \<Rightarrow> (string \<times> string) list list" where
  "spec_relations character_name text =
     take 3 (map (\<lambda>sentence. [(''name'', ''Unknown''), (''relation'', py_strip sentence)])
               (filter (py_in character_name) (py_split (CHR ''.'') text)))"

text \<open>The presence check of the specification: the source can be read and its text
  contains the name, case ignored. \<open>sources_readable\<close>: every metadata entry names a
  source and that source can be read.\<close>

definition source_matches :: "(string \<rightharpoonup> 'a file_data) \<Rightarrow> string \<Rightarrow> string \<Rightarrow> bool" where
  "source_matches fs character_name src =
     (case read_text fs src of
        Inl e \<Rightarrow> False
      | Inr content \<Rightarrow> py_in (py_lower character_name) (py_lower content))"

definition sources_readable ::
  "(string \<rightharpoonup> 'a file_data) \<Rightarrow> (string \<times> string) list list \<Rightarrow> bool" where
  "sources_readable fs ms =
     list_all (\<lambda>m. case dict_get m ''source'' of
                      Inl e \<Rightarrow> False
                    | Inr src \<Rightarrow> (case read_text fs src of Inl e \<Rightarrow> False | Inr content \<Rightarrow> True))
       ms"

text \<open>Coverage of a text by chunks: every occurrence of a character that is not
  whitespace lies in a chunk that continues the text to the left and to the right of the
  occurrence, so the chunk is a piece of the text around it. \<open>covers_in\<close> is the same for
  a part \<open>s\<close> of a text, with the text to its left and to its right.\<close>

definition covers_in :: "string \<Rightarrow> string \<Rightarrow> string \<Rightarrow> string list \<Rightarrow> bool" where
  "covers_in left s right chunks =
     (\<forall>before c after. s = before @ c # after \<and> \<not> py_isspace c \<longrightarrow>
        (\<exists>chunk\<in>set chunks. \<exists>u v. chunk = u @ c # v
            \<and> suffix u (left @ before) \<and> prefix v (after @ right)))"

definition covers :: "string \<Rightarrow> string list \<Rightarrow> bool" where
  "covers text chunks = covers_in [] text [] chunks"

section \<open>Example corpora\<close>

text \<open>A toy encoder (the length of the text as a one-dimensional vector) and small
  corpora, on which the model is run below. \<open>compute_embeddings\<close> is the command of lines
  141-155: a fresh processor, one \<open>Document\<close> per story file, \<open>process_stories\<close>.\<close>

definition demo_enc :: "string \<Rightarrow> int list" where
  "demo_enc s = [int (length s)]"

definition story :: "string \<Rightarrow> string \<Rightarrow> Document" where
  "story src content = \<lparr>page_content = content, metadata = [(''source'', src)]\<rparr>"

definition story_files :: "(string \<times> string) list \<Rightarrow> (string \<rightharpoonup> int file_data)" where
  "story_files stories = map_of (map (\<lambda>(src, content). (src, TextFile content)) stories)"

definition compute_embeddings ::
  "(string \<times> string) list \<Rightarrow> (error + unit) \<times> int StoryProcessor \<times> (string \<rightharpoonup> int file_data)" where
  "compute_embeddings stories =
     process_stories demo_enc (story_files stories) init_processor
       (map (\<lambda>(src, content). story src content) stories)"

definition three_stories :: "(string \<times> string) list" where
  "three_stories = [(''a.txt'', ''aa''), (''b.txt'', ''b''), (''c.txt'', ''cccc'')]"

definition hero_text :: string where
  "hero_text =
     ''Alice is the protagonist of the story. Alice and Bob are friends. Bob is the antagonist.''"

definition hero_stories :: "(string \<times> string) list" where
  "hero_stories = [(''hero.txt'', hero_text)]"

definition hero_processor :: "int StoryProcessor" where
  "hero_processor =
     \<lparr>index = Some (IndexFlatL2 1 [[88]]), texts = [hero_text],
      metadatas = [[(''source'', ''hero.txt'')]]\<rparr>"

definition hero_alice :: CharacterInfo where
  "hero_alice =
     \<lparr>name = ''Alice'', storyTitle = ''hero'',
      summary = take 500 (py_join '' '' (replicate 5 hero_text)),
      relations =
        [[(''name'', ''Unknown''), (''relation'', ''Alice is the protagonist of the story'')],
         [(''name'', ''Unknown''), (''relation'', ''Alice and Bob are friends'')],
         [(''name'', ''Unknown''), (''relation'', ''Alice is the protagonist of the story'')]],
      characterType = ''Protagonist''\<rparr>"

text \<open>The files after \<open>compute_embeddings\<close>, and the command of lines 157-171 on them:
  a fresh processor and one lookup.\<close>

definition disk_after :: "(string \<times> string) list \<Rightarrow> (string \<rightharpoonup> int file_data)" where
  "disk_after stories = snd (snd (compute_embeddings stories))"

definition lookup_on ::
  "(string \<rightharpoonup> int file_data) \<Rightarrow> string \<Rightarrow> (error + CharacterInfo option) \<times> int StoryProcessor" where
  "lookup_on fs character_name = get_character_info demo_enc 0 fs init_processor character_name"


definition two_stories :: "(string \<times> string) list" where
  "two_stories = [(''a.txt'', ''Ann sings.''), (''b.txt'', ''Bo hums.'')]"

text \<open>An index file with one vector beside a store file with two texts.\<close>

definition misaligned_files :: "string \<rightharpoonup> int file_data" where
  "misaligned_files =
     [index_path \<mapsto> FaissFile (IndexFlatL2 1 [[5]]),
      store_path \<mapsto> PickleFile [''Alice'', ''Bob is here'']
                      [[(''source'', ''a.txt'')], [(''source'', ''a.txt'')]],
      ''a.txt'' \<mapsto> TextFile ''Alice'']"

text \<open>The files of \<open>two_stories\<close> after \<open>compute_embeddings\<close>, with the story file
  \<^verbatim>\<open>b.txt\<close> removed afterwards.\<close>

definition disk_without_b :: "string \<rightharpoonup> int file_data" where
  "disk_without_b = (disk_after two_stories)(''b.txt'' := None)"

section \<open>Properties of the built-ins and of retrieval\<close>

lemma py_in_Nil [simp]: "py_in [] s"
  by (cases s) simp_all

lemma py_in_iff_sublist: "py_in sub s \<longleftrightarrow> sublist sub s"
  by (induction s) (auto simp: sublist_Cons_right)

lemma py_join_nonempty: "2 \<le> length parts \<Longrightarrow> sep \<noteq> [] \<Longrightarrow> py_join sep parts \<noteq> []"
  by (cases "(sep, parts)" rule: py_join.cases) auto

lemma getitems_length: "getitems xs ids = Inr ys \<Longrightarrow> length ys = length ids"
  by (induction ids arbitrary: ys) (auto split: sum.splits)

lemma nearest_length: "length (nearest idx q k) = min k (ntotal idx)"
  by (simp add: nearest_def ntotal_def)

lemma index_search_length: "index_search idx q k = Inr DI \<Longrightarrow> length DI = nat k"
  by (auto simp: index_search_def nearest_length split: if_splits)

lemma find_relevant_chunks_length:
  "find_relevant_chunks enc st query k = Inr chunks \<Longrightarrow> length chunks = nat k"
  by (auto simp: find_relevant_chunks_def Let_def split: option.splits sum.splits
      dest!: getitems_length index_search_length)

section \<open>The lookup, step by step\<close>

lemma collect_chunks_queries:
  assumes "collect_chunks enc st (queries n) = Inr rc"
  obtains c1 c2 c3 c4 where
    "find_relevant_chunks enc st (''story title '' @ n) 5 = Inr c1"
    "find_relevant_chunks enc st (''summary of '' @ n @ [CHR 0x27] @ ''s role'') 5 = Inr c2"
    "find_relevant_chunks enc st (''relationships of '' @ n) 5 = Inr c3"
    "find_relevant_chunks enc st (''character type role of '' @ n) 5 = Inr c4"
    "rc = [(''story_title'', py_join '' '' c1), (''summary'', py_join '' '' c2),
           (''relations'', py_join '' '' c3), (''character_type'', py_join '' '' c4)]"
  using assms by (auto simp: queries_def split: sum.splits)

lemma get_character_info_cases:
  "get_character_info enc pick fs st n =
     (case fst (load_store fs st) of
        Inl e \<Rightarrow> (Inl e, snd (load_store fs st))
      | Inr u \<Rightarrow> (lookup_resident enc pick fs (snd (load_store fs st)) n, snd (load_store fs st)))"
  by (simp add: get_character_info_def split: prod.splits sum.splits)

lemma get_character_info_record:
  assumes "get_character_info enc pick fs st n = (Inr (Some info), st')"
  obtains c2 c3 c4 srcs where
    "load_store fs st = (Inr (), st')"
    "find_relevant_chunks enc st' (''summary of '' @ n @ [CHR 0x27] @ ''s role'') 5 = Inr c2"
    "find_relevant_chunks enc st' (''relationships of '' @ n) 5 = Inr c3"
    "find_relevant_chunks enc st' (''character type role of '' @ n) 5 = Inr c4"
    "scan_sources fs n [] (metadatas st') = Inr srcs" "srcs \<noteq> []"
    "info = \<lparr>name = n, storyTitle = py_replace ''.txt'' [] (next_iter pick srcs),
             summary = take 500 (py_join '' '' c2),
             relations = take 3 (extract_relations n (py_join '' '' c3)),
             characterType = character_type_of (py_join '' '' c4)\<rparr>"
proof -
  from assms obtain u where l: "load_store fs st = (Inr u, st')"
    and r: "lookup_resident enc pick fs st' n = Inr (Some info)"
    by (auto simp: get_character_info_def split: prod.splits sum.splits)
  from r obtain rc where rc: "collect_chunks enc st' (queries n) = Inr rc"
    by (auto simp: lookup_resident_def split: sum.splits)
  from rc obtain c1 c2 c3 c4 where c:
    "find_relevant_chunks enc st' (''summary of '' @ n @ [CHR 0x27] @ ''s role'') 5 = Inr c2"
    "find_relevant_chunks enc st' (''relationships of '' @ n) 5 = Inr c3"
    "find_relevant_chunks enc st' (''character type role of '' @ n) 5 = Inr c4"
    "rc = [(''story_title'', py_join '' '' c1), (''summary'', py_join '' '' c2),
           (''relations'', py_join '' '' c3), (''character_type'', py_join '' '' c4)]"
    by (rule collect_chunks_queries)
  from r rc obtain srcs where s: "scan_sources fs n [] (metadatas st') = Inr srcs"
    by (auto simp: lookup_resident_def split: sum.splits)
  from r rc s c(4) have "srcs \<noteq> []" and
    "info = \<lparr>name = n, storyTitle = py_replace ''.txt'' [] (next_iter pick srcs),
             summary = take 500 (py_join '' '' c2),
             relations = take 3 (extract_relations n (py_join '' '' c3)),
             characterType = character_type_of (py_join '' '' c4)\<rparr>"
    by (auto simp: lookup_resident_def dict_get_def split: if_splits)
  with l c s that show thesis by simp
qed

lemma scan_sources_members:
  "scan_sources fs n acc ms = Inr srcs \<Longrightarrow>
   set srcs = set acc \<union> {src. \<exists>m\<in>set ms. dict_get m ''source'' = Inr src \<and> source_matches fs n src}"
proof (induction ms arbitrary: acc)
  case Nil
  then show ?case by simp
next
  case (Cons m ms)
  from Cons.prems obtain src content where m: "dict_get m ''source'' = Inr src"
    "read_text fs src = Inr content"
    by (auto split: sum.splits)
  show ?case
  proof (cases "py_in (py_lower n) (py_lower content)")
    case True
    with Cons.prems m have "scan_sources fs n (if src \<in> set acc then acc else acc @ [src]) ms = Inr srcs"
      by simp
    from Cons.IH [OF this] m True show ?thesis
      by (auto simp: source_matches_def)
  next
    case False
    with Cons.prems m have "scan_sources fs n acc ms = Inr srcs"
      by simp
    from Cons.IH [OF this] m False show ?thesis
      by (auto simp: source_matches_def)
  qed
qed

lemma scan_sources_returns:
  "sources_readable fs ms \<Longrightarrow> \<exists>srcs. scan_sources fs n acc ms = Inr srcs"
  by (induction ms arbitrary: acc) (auto simp: sources_readable_def split: sum.splits)

lemma scan_sources_readable:
  "scan_sources fs n acc ms = Inr srcs \<Longrightarrow> sources_readable fs ms"
proof (induction ms arbitrary: acc)
  case Nil
  then show ?case by (simp add: sources_readable_def)
next
  case (Cons m ms)
  from Cons.prems obtain src content where m: "dict_get m ''source'' = Inr src"
    "read_text fs src = Inr content"
    by (auto split: sum.splits)
  with Cons.prems obtain acc' where "scan_sources fs n acc' ms = Inr srcs"
    by auto
  then have "sources_readable fs ms" by (rule Cons.IH)
  with m show ?case by (simp add: sources_readable_def)
qed

lemma not_isl_Inr: "\<not> isl x \<Longrightarrow> \<exists>r. x = Inr r"
  by (cases x) auto

section \<open>The example corpora, run\<close>

lemma hero_built:
  "fst (compute_embeddings hero_stories) = Inr ()
   \<and> fst (snd (compute_embeddings hero_stories)) = hero_processor"
  by code_simp

lemma hero_lookup_alice:
  "lookup_on (disk_after hero_stories) ''Alice'' = (Inr (Some hero_alice), hero_processor)"
  by code_simp

lemma hero_lookup_zara:
  "lookup_on (disk_after hero_stories) ''Zara'' = (Inr None, hero_processor)"
  by code_simp


section \<open>Retrieval without an index\<close>

text \<open>
  C9. \<open>find_relevant_chunks\<close> on a processor whose \<open>index\<close> is \<open>None\<close> raises
  (\<open>AttributeError\<close>) for every query and every \<open>k\<close>; it does not return the empty list.
  The function takes no file system: nothing is loaded on this path.
\<close>

theorem find_relevant_chunks_without_index:
  assumes "index st = None"
  shows "find_relevant_chunks enc st query k = Inl AttributeError
       \<and> find_relevant_chunks enc st query k \<noteq> Inr []"
  using assms by (simp add: find_relevant_chunks_def)

theorem find_relevant_chunks_without_index_witness:
  "index (init_processor :: int StoryProcessor) = None
   \<and> find_relevant_chunks demo_enc init_processor ''relationships of Alice'' 5
       = Inl AttributeError"
  using find_relevant_chunks_without_index
    [of "init_processor :: int StoryProcessor" demo_enc "''relationships of Alice''" 5]
  by (simp add: init_processor_def)

section \<open>How many chunks retrieval returns\<close>

text \<open>The general picture, for a processor whose texts are aligned with its index: the
  nearest vectors' texts in ascending order of distance, and, when \<open>k\<close> exceeds the number
  of vectors, the last text in each remaining place. Retrieval returns \<open>k\<close> texts in every
  case (\<open>find_relevant_chunks_length\<close>).\<close>

lemma nearest_sorted: "sorted (map fst (nearest idx q k))"
  by (simp add: nearest_def take_map [symmetric] sorted_wrt_take del: take_map)

lemma nearest_labels: "(dist, i) \<in> set (nearest idx q k) \<Longrightarrow> i < ntotal idx"
proof -
  assume "(dist, i) \<in> set (nearest idx q k)"
  then have "(dist, i) \<in> set (map (\<lambda>(i, v). (l2sqr q v, i)) (enumerate 0 (ix_xb idx)))"
    by (auto simp: nearest_def dest: in_set_takeD)
  then show ?thesis
    by (auto simp: ntotal_def in_set_enumerate_eq)
qed

lemma nearest_distinct: "distinct (map snd (nearest idx q k))"
proof -
  have "map snd (map (\<lambda>(i, v). (l2sqr q v, i)) (enumerate 0 (ix_xb idx)))
        = [0..<length (ix_xb idx)]"
    by (simp add: enumerate_eq_zip map_snd_zip_take comp_def split_def flip: map_fst_zip)
       (metis length_upt map_fst_zip minus_nat.diff_0 order_refl)
  then have "distinct (map snd (map (\<lambda>(i, v). (l2sqr q v, i)) (enumerate 0 (ix_xb idx))))"
    by simp
  then have "distinct (map snd (sort_key fst (map (\<lambda>(i, v). (l2sqr q v, i)) (enumerate 0 (ix_xb idx)))))"
    by (metis distinct_map distinct_sort set_sort)
  then show ?thesis
    unfolding nearest_def by (metis distinct_take take_map)
qed

lemma getitems_append:
  "getitems xs (a @ b) =
     (case getitems xs a of
        Inl e \<Rightarrow> Inl e
      | Inr ys \<Rightarrow> (case getitems xs b of Inl e \<Rightarrow> Inl e | Inr zs \<Rightarrow> Inr (ys @ zs)))"
  by (induction a) (auto split: sum.splits)

lemma getitems_in_range:
  "list_all (\<lambda>i. i < length xs) ids \<Longrightarrow> getitems xs (map int ids) = Inr (map (nth xs) ids)"
  by (induction ids) (auto simp: py_getitem_def)

lemma getitems_last:
  "xs \<noteq> [] \<Longrightarrow> getitems xs (replicate n (- 1)) = Inr (replicate n (last xs))"
proof (induction n)
  case 0
  show ?case by simp
next
  case (Suc n)
  from Suc.prems have "py_getitem xs (- 1) = Inr (last xs)"
    by (cases xs rule: rev_cases) (auto simp: py_getitem_def nat_diff_distrib' nth_append)
  with Suc show ?case by simp
qed

lemma find_relevant_chunks_padded:
  assumes "index st = Some idx" "length (enc query) = ix_d idx" "0 < k"
    and "length (texts st) = ntotal idx" "texts st \<noteq> []"
  shows "find_relevant_chunks enc st query k =
           Inr (map (\<lambda>(dist, i). texts st ! i) (nearest idx (enc query) (nat k))
                @ replicate (nat k - ntotal idx) (last (texts st)))"
proof -
  let ?near = "nearest idx (enc query) (nat k)"
  have s: "index_search idx (enc query) k =
             Inr (map (\<lambda>(dist, i). (Some dist, int i)) ?near
                  @ replicate (nat k - length ?near) (None, - 1))"
    using assms(2,3) by (simp add: index_search_def)
  have l: "map snd (map (\<lambda>(dist, i). (Some dist, int i)) ?near
                  @ replicate (nat k - length ?near) (None, - 1))
           = map int (map snd ?near) @ replicate (nat k - length ?near) (- 1)"
    by (simp add: comp_def split_def)
  have "list_all (\<lambda>i. i < length (texts st)) (map snd ?near)"
    using nearest_labels [of _ _ idx "enc query" "nat k"] assms(4)
    by (auto simp: list_all_iff)
  then have a: "getitems (texts st) (map int (map snd ?near))
                = Inr (map (nth (texts st)) (map snd ?near))"
    by (rule getitems_in_range)
  have b: "getitems (texts st) (replicate (nat k - length ?near) (- 1))
           = Inr (replicate (nat k - length ?near) (last (texts st)))"
    using assms(5) by (rule getitems_last)
  have n: "nat k - length ?near = nat k - ntotal idx"
    by (simp add: nearest_length)
  have "getitems (texts st) (map int (map snd ?near) @ replicate (nat k - length ?near) (- 1))
        = Inr (map (nth (texts st)) (map snd ?near)
               @ replicate (nat k - length ?near) (last (texts st)))"
    by (simp only: getitems_append a b sum.case)
  moreover have "map (nth (texts st)) (map snd ?near) = map (\<lambda>(dist, i). texts st ! i) ?near"
    by (simp add: comp_def split_def)
  ultimately have "getitems (texts st)
          (map snd (map (\<lambda>(dist, i). (Some dist, int i)) ?near
                    @ replicate (nat k - length ?near) (None, - 1)))
        = Inr (map (\<lambda>(dist, i). texts st ! i) ?near
               @ replicate (nat k - ntotal idx) (last (texts st)))"
    unfolding l n by (simp add: comp_def split_def)
  then show ?thesis
    by (simp only: find_relevant_chunks_def Let_def assms(1) option.case s sum.case)
qed


text \<open>
  C1. The claim: with \<open>N\<close> vectors in the index, retrieval with \<open>k\<close> returns \<open>min k N\<close>
  texts; three chunks and \<open>k = 5\<close> give three texts. The code on a corpus of three
  chunks: the index pads its label row with \<open>-1\<close> up to \<open>k\<close>, and \<open>self.texts[-1]\<close> is the
  last text, so five texts come back, the last stored chunk three times in all.
\<close>

theorem retrieve_three_chunks_k5:
  "fst (compute_embeddings three_stories) = Inr ()
   \<and> texts (fst (snd (compute_embeddings three_stories))) = [''aa'', ''b'', ''cccc'']
   \<and> find_relevant_chunks demo_enc (fst (snd (compute_embeddings three_stories))) ''xxx'' 5
       = Inr [''aa'', ''cccc'', ''b'', ''cccc'', ''cccc'']"
  by code_simp

theorem retrieve_three_chunks_k5_witness:
  "map_sum id length
     (find_relevant_chunks demo_enc (fst (snd (compute_embeddings three_stories))) ''xxx'' 5)
   = Inr 5"
  using retrieve_three_chunks_k5 by simp

section \<open>The character type\<close>

lemma character_type_of_spec: "character_type_of text = spec_character_type text"
  by (simp add: character_type_of_def spec_character_type_def)

text \<open>
  C3. The character type of a lookup result is the first hit of the ordered keyword list
  protagonist, antagonist, main on the lowered text retrieved for the character-type
  query, and the default \<open>Supporting Character\<close> without a hit. A text with antagonist
  and main but without protagonist gives \<open>Antagonist\<close>.
\<close>

theorem character_type_priority:
  "character_type_of text = spec_character_type text
   \<and> (py_in ''antagonist'' (py_lower text) \<and> py_in ''main'' (py_lower text)
        \<and> \<not> py_in ''protagonist'' (py_lower text)
      \<longrightarrow> character_type_of text = ''Antagonist'')
   \<and> (get_character_info enc pick fs st character_name = (Inr (Some info), st')
      \<longrightarrow> (\<exists>chunks.
             find_relevant_chunks enc st' (''character type role of '' @ character_name) 5
               = Inr chunks
           \<and> characterType info = spec_character_type (py_join '' '' chunks)))"
proof (intro conjI impI)
  show "character_type_of text = spec_character_type text"
    by (rule character_type_of_spec)
next
  assume "py_in ''antagonist'' (py_lower text) \<and> py_in ''main'' (py_lower text)
            \<and> \<not> py_in ''protagonist'' (py_lower text)"
  then show "character_type_of text = ''Antagonist''"
    by (simp add: character_type_of_def)
next
  assume a: "get_character_info enc pick fs st character_name = (Inr (Some info), st')"
  from a obtain c2 c3 c4 srcs where
    "find_relevant_chunks enc st' (''character type role of '' @ character_name) 5 = Inr c4"
    "info = \<lparr>name = character_name, storyTitle = py_replace ''.txt'' [] (next_iter pick srcs),
             summary = take 500 (py_join '' '' c2),
             relations = take 3 (extract_relations character_name (py_join '' '' c3)),
             characterType = character_type_of (py_join '' '' c4)\<rparr>"
    by (rule get_character_info_record)
  then show "\<exists>chunks.
      find_relevant_chunks enc st' (''character type role of '' @ character_name) 5 = Inr chunks
      \<and> characterType info = spec_character_type (py_join '' '' chunks)"
    by (simp add: character_type_of_spec)
qed

theorem character_type_priority_witness:
  "py_in ''antagonist'' (py_lower ''The Main Antagonist'')
   \<and> py_in ''main'' (py_lower ''The Main Antagonist'')
   \<and> \<not> py_in ''protagonist'' (py_lower ''The Main Antagonist'')
   \<and> character_type_of ''The Main Antagonist'' = ''Antagonist''
   \<and> lookup_on (disk_after hero_stories) ''Alice'' = (Inr (Some hero_alice), hero_processor)
   \<and> (\<exists>chunks.
         find_relevant_chunks demo_enc hero_processor (''character type role of '' @ ''Alice'') 5
           = Inr chunks
       \<and> characterType hero_alice = spec_character_type (py_join '' '' chunks))"
proof -
  have h: "py_in ''antagonist'' (py_lower ''The Main Antagonist'')
   \<and> py_in ''main'' (py_lower ''The Main Antagonist'')
   \<and> \<not> py_in ''protagonist'' (py_lower ''The Main Antagonist'')"
    by code_simp
  note t = character_type_priority [of "''The Main Antagonist''" demo_enc 0
      "disk_after hero_stories" init_processor "''Alice''" hero_alice hero_processor]
  have l: "get_character_info demo_enc 0 (disk_after hero_stories) init_processor ''Alice''
           = (Inr (Some hero_alice), hero_processor)"
    using hero_lookup_alice by (simp add: lookup_on_def)
  from t h l hero_lookup_alice show ?thesis
    by blast
qed

section \<open>The relations\<close>

lemma extract_relations_spec:
  "relations_text \<noteq> [] \<or> character_name \<noteq> []
   \<Longrightarrow> take 3 (extract_relations character_name relations_text)
       = spec_relations character_name relations_text"
  by (auto simp: extract_relations_def spec_relations_def)

text \<open>
  C4. The relations of a lookup result are computed from the text retrieved for the
  relations query: split on the full stop, the sentences containing the name kept in
  order, each trimmed and paired with the name \<open>Unknown\<close>, and the first three of them
  returned; so three are returned whenever more than three sentences match.
\<close>

theorem relations_first_three_sentences:
  assumes "get_character_info enc pick fs st character_name = (Inr (Some info), st')"
  shows "\<exists>chunks.
           find_relevant_chunks enc st' (''relationships of '' @ character_name) 5 = Inr chunks
         \<and> relations info = spec_relations character_name (py_join '' '' chunks)
         \<and> relations info =
               take 3 (map (\<lambda>sentence. [(''name'', ''Unknown''), (''relation'', py_strip sentence)])
                 (filter (py_in character_name) (py_split (CHR ''.'') (py_join '' '' chunks))))
         \<and> length (relations info) =
               min 3 (length (filter (py_in character_name)
                                (py_split (CHR ''.'') (py_join '' '' chunks))))"
proof -
  from assms obtain c2 c3 c4 srcs where
    c3: "find_relevant_chunks enc st' (''relationships of '' @ character_name) 5 = Inr c3" and
    info: "info = \<lparr>name = character_name, storyTitle = py_replace ''.txt'' [] (next_iter pick srcs),
             summary = take 500 (py_join '' '' c2),
             relations = take 3 (extract_relations character_name (py_join '' '' c3)),
             characterType = character_type_of (py_join '' '' c4)\<rparr>"
    by (rule get_character_info_record)
  from c3 have "length c3 = 5"
    by (auto dest: find_relevant_chunks_length)
  then have "py_join '' '' c3 \<noteq> []"
    by (intro py_join_nonempty) simp_all
  then have "relations info = spec_relations character_name (py_join '' '' c3)"
    using info by (simp add: extract_relations_spec)
  with c3 show ?thesis
    by (auto simp: spec_relations_def)
qed

theorem relations_first_three_sentences_witness:
  "lookup_on (disk_after hero_stories) ''Alice'' = (Inr (Some hero_alice), hero_processor)
   \<and> length (relations hero_alice) = 3
   \<and> (\<exists>chunks.
         find_relevant_chunks demo_enc hero_processor (''relationships of '' @ ''Alice'') 5
           = Inr chunks
       \<and> relations hero_alice = spec_relations ''Alice'' (py_join '' '' chunks)
       \<and> length (relations hero_alice) =
             min 3 (length (filter (py_in ''Alice'')
                              (py_split (CHR ''.'') (py_join '' '' chunks)))))"
proof -
  have l: "get_character_info demo_enc 0 (disk_after hero_stories) init_processor ''Alice''
           = (Inr (Some hero_alice), hero_processor)"
    using hero_lookup_alice by (simp add: lookup_on_def)
  have "length (relations hero_alice) = 3"
    by (simp add: hero_alice_def)
  with relations_first_three_sentences [OF l] hero_lookup_alice show ?thesis
    by blast
qed

section \<open>Loading the persisted pair\<close>

lemma paths_differ: "index_path \<noteq> store_path"
  by (simp add: index_path_def store_path_def)

lemma load_store_files:
  assumes "index st = None" "fs index_path = Some (FaissFile idx)"
    "fs store_path = Some (PickleFile ts ms)"
  shows "load_store fs st = (Inr (), st\<lparr>index := Some idx, texts := ts, metadatas := ms\<rparr>)"
  using assms by (simp add: load_store_def path_exists_def read_index_def pickle_load_def)

lemma load_store_missing:
  assumes "index st = None" "fs index_path = None \<or> fs store_path = None"
  shows "load_store fs st = (Inl (ValueError ''No index found. Please process stories first.''), st)"
  using assms by (auto simp: load_store_def path_exists_def)

lemma process_stories_saved:
  assumes "process_stories enc fs st stories = (Inr (), st1, fs1)"
  obtains idx where "index st1 = Some idx" "fs1 index_path = Some (FaissFile idx)"
    "fs1 store_path = Some (PickleFile (texts st1) (metadatas st1))"
  using assms paths_differ
  by (auto simp: process_stories_def Let_def split: prod.splits sum.splits list.splits)

lemma misaligned_lookup:
  "lookup_on misaligned_files ''Alice'' =
     (Inr (Some \<lparr>name = ''Alice'', storyTitle = ''a'',
                summary = ''Alice Bob is here Bob is here Bob is here Bob is here'',
                relations =
                  [[(''name'', ''Unknown''),
                    (''relation'', ''Alice Bob is here Bob is here Bob is here Bob is here'')]],
                characterType = ''Supporting Character''\<rparr>),
      \<lparr>index = Some (IndexFlatL2 1 [[5]]), texts = [''Alice'', ''Bob is here''],
       metadatas = [[(''source'', ''a.txt'')], [(''source'', ''a.txt'')]]\<rparr>)"
  by code_simp

lemma misaligned_files_pair:
  "misaligned_files index_path = Some (FaissFile (IndexFlatL2 1 [[5]]))
   \<and> misaligned_files store_path =
       Some (PickleFile [''Alice'', ''Bob is here'']
               [[(''source'', ''a.txt'')], [(''source'', ''a.txt'')]])"
  by (simp add: misaligned_files_def index_path_def store_path_def)

text \<open>
  C2, as the claim states it, fails: here the index file holds one vector and the store
  file two texts, and the lookup that loads them returns a record.
\<close>

theorem load_misaligned_pair_counterexample:
  "ntotal (IndexFlatL2 1 [[5 :: int]]) \<noteq> length [''Alice'', ''Bob is here'']
   \<and> misaligned_files index_path = Some (FaissFile (IndexFlatL2 1 [[5]]))
   \<and> misaligned_files store_path =
       Some (PickleFile [''Alice'', ''Bob is here'']
               [[(''source'', ''a.txt'')], [(''source'', ''a.txt'')]])
   \<and> fst (get_character_info demo_enc 0 misaligned_files init_processor ''Alice'') =
       Inr (Some \<lparr>name = ''Alice'', storyTitle = ''a'',
                  summary = ''Alice Bob is here Bob is here Bob is here Bob is here'',
                  relations =
                    [[(''name'', ''Unknown''),
                      (''relation'', ''Alice Bob is here Bob is here Bob is here Bob is here'')]],
                  characterType = ''Supporting Character''\<rparr>)"
  using misaligned_lookup misaligned_files_pair
  by (simp add: lookup_on_def ntotal_def)

text \<open>
  C2, amended. A lookup on a processor without an index, with an index file and a store
  file on disk, installs the index, the texts and the metadata as they were read and goes
  on with them, whether or not the number of texts equals the number of vectors: the two
  are not compared, and no error is raised for a mismatch.
\<close>

theorem lookup_loads_pair_unchecked:
  "index st = None \<and> fs index_path = Some (FaissFile idx)
     \<and> fs store_path = Some (PickleFile ts ms)
   \<longrightarrow> load_store fs st =
         (Inr (), st\<lparr>index := Some idx, texts := ts, metadatas := ms\<rparr>)
       \<and> get_character_info enc pick fs st character_name =
         (lookup_resident enc pick fs
            (st\<lparr>index := Some idx, texts := ts, metadatas := ms\<rparr>) character_name,
          st\<lparr>index := Some idx, texts := ts, metadatas := ms\<rparr>)"
  by (auto simp: get_character_info_def load_store_files)

theorem lookup_loads_pair_unchecked_witness:
  "index (init_processor :: int StoryProcessor) = None
   \<and> misaligned_files index_path = Some (FaissFile (IndexFlatL2 1 [[5]]))
   \<and> misaligned_files store_path =
       Some (PickleFile [''Alice'', ''Bob is here'']
               [[(''source'', ''a.txt'')], [(''source'', ''a.txt'')]])
   \<and> ntotal (IndexFlatL2 1 [[5 :: int]]) \<noteq> length [''Alice'', ''Bob is here'']
   \<and> load_store misaligned_files (init_processor :: int StoryProcessor) =
       (Inr (),
        init_processor\<lparr>index := Some (IndexFlatL2 1 [[5]]),
             texts := [''Alice'', ''Bob is here''],
             metadatas := [[(''source'', ''a.txt'')], [(''source'', ''a.txt'')]]\<rparr>)
   \<and> get_character_info demo_enc 0 misaligned_files init_processor ''Alice'' =
       (lookup_resident demo_enc 0 misaligned_files
          (init_processor\<lparr>index := Some (IndexFlatL2 1 [[5]]),
             texts := [''Alice'', ''Bob is here''],
             metadatas := [[(''source'', ''a.txt'')], [(''source'', ''a.txt'')]]\<rparr>) ''Alice'',
        init_processor\<lparr>index := Some (IndexFlatL2 1 [[5]]),
             texts := [''Alice'', ''Bob is here''],
             metadatas := [[(''source'', ''a.txt'')], [(''source'', ''a.txt'')]]\<rparr>)"
proof -
  have i: "index (init_processor :: int StoryProcessor) = None"
    by (simp add: init_processor_def)
  note a = lookup_loads_pair_unchecked [of "init_processor :: int StoryProcessor" misaligned_files
      "IndexFlatL2 1 [[5]]" "[''Alice'', ''Bob is here'']"
      "[[(''source'', ''a.txt'')], [(''source'', ''a.txt'')]]" demo_enc 0 "''Alice''"]
  from a i misaligned_files_pair show ?thesis
    by (simp add: ntotal_def)
qed

section \<open>Saving and reloading\<close>

text \<open>
  C5. After \<open>process_stories\<close> has saved the index and the store, a processor without an
  index that looks a character up loads exactly the processor state that was saved: its
  index, texts and metadata are those in memory at the save, so every search on the
  reloaded index returns the same (distance, id) sequence, and every retrieval the same
  texts. A file holds the value written (the serialised bytes are not modelled), so the
  sequences are equal, not only close.
\<close>

theorem reload_round_trip:
  assumes "process_stories enc fs st0 stories = (Inr (), st1, fs1)"
    and "index (st :: 'a::linordered_idom StoryProcessor) = None"
  shows "snd (get_character_info enc pick fs1 st character_name) = st1
       \<and> (\<forall>q k. index_search (the (index (snd (get_character_info enc pick fs1 st character_name)))) q k
                 = index_search (the (index st1)) q k)
       \<and> (\<forall>query k.
             find_relevant_chunks enc (snd (get_character_info enc pick fs1 st character_name)) query k
               = find_relevant_chunks enc st1 query k)"
proof -
  from assms(1) obtain idx where i: "index st1 = Some idx" "fs1 index_path = Some (FaissFile idx)"
    "fs1 store_path = Some (PickleFile (texts st1) (metadatas st1))"
    by (rule process_stories_saved)
  have "st\<lparr>index := Some idx, texts := texts st1, metadatas := metadatas st1\<rparr> = st1"
    using i(1) by (cases st, cases st1) simp
  then have "snd (get_character_info enc pick fs1 st character_name) = st1"
    using load_store_files [OF assms(2) i(2) i(3)] by (simp add: get_character_info_def)
  then show ?thesis by simp
qed

theorem reload_round_trip_witness:
  "compute_embeddings hero_stories = (Inr (), hero_processor, disk_after hero_stories)
   \<and> index (init_processor :: int StoryProcessor) = None
   \<and> snd (lookup_on (disk_after hero_stories) ''Alice'') = hero_processor
   \<and> (\<forall>q k. index_search (the (index (snd (lookup_on (disk_after hero_stories) ''Alice'')))) q k
             = index_search (the (index hero_processor)) q k)"
proof -
  have b: "process_stories demo_enc (story_files hero_stories) init_processor
             (map (\<lambda>(src, content). story src content) hero_stories)
           = (Inr (), hero_processor, disk_after hero_stories)"
    using hero_built
    by (simp add: disk_after_def compute_embeddings_def prod_eq_iff)
  have i: "index (init_processor :: int StoryProcessor) = None"
    by (simp add: init_processor_def)
  from reload_round_trip [OF b i, of 0 "''Alice''"] b i show ?thesis
    by (simp add: lookup_on_def compute_embeddings_def)
qed

section \<open>A name that no source contains\<close>



lemma scan_sources_unreadable:
  "\<not> sources_readable fs ms \<Longrightarrow> \<exists>e. scan_sources fs n acc ms = Inl e"
  using scan_sources_readable [of fs n acc ms] by (cases "scan_sources fs n acc ms") auto

lemma lookup_resident_scan_error:
  "\<not> isl (collect_chunks enc st (queries n)) \<Longrightarrow> scan_sources fs n [] (metadatas st) = Inl e
   \<Longrightarrow> lookup_resident enc pick fs st n = Inl e"
  by (auto simp: lookup_resident_def split: sum.splits)

lemma lookup_resident_collect_error:
  "collect_chunks enc st (queries n) = Inl e \<Longrightarrow> lookup_resident enc pick fs st n = Inl e"
  by (simp add: lookup_resident_def)

lemma get_character_info_raises:
  assumes "\<not> (fst (load_store fs st) = Inr ()
              \<and> \<not> isl (collect_chunks enc (snd (load_store fs st)) (queries n))
              \<and> sources_readable fs (metadatas (snd (load_store fs st))))"
  shows "isl (fst (get_character_info enc pick fs st n))"
proof (cases "fst (load_store fs st)")
  case (Inl e)
  then show ?thesis
    by (simp add: get_character_info_cases)
next
  case (Inr u)
  show ?thesis
  proof (cases "collect_chunks enc (snd (load_store fs st)) (queries n)")
    case (Inl e)
    with Inr show ?thesis
      by (simp add: get_character_info_cases lookup_resident_collect_error)
  next
    case rc: (Inr rc)
    with Inr assms have "\<not> sources_readable fs (metadatas (snd (load_store fs st)))"
      by simp
    then obtain e where "scan_sources fs n [] (metadatas (snd (load_store fs st))) = Inl e"
      using scan_sources_unreadable by blast
    with Inr rc show ?thesis
      by (simp add: get_character_info_cases lookup_resident_scan_error)
  qed
qed







section \<open>The story title\<close>











section \<open>The empty name\<close>

lemma lookup_resident_None:
  "lookup_resident enc pick fs st n = Inr None
   \<Longrightarrow> scan_sources fs n [] (metadatas st) = Inr []"
  by (auto simp: lookup_resident_def split: sum.splits if_splits)

lemma scan_sources_empty_name:
  assumes "scan_sources fs [] acc ms = Inr srcs" "ms \<noteq> []"
  shows "srcs \<noteq> []"
proof -
  from assms(2) obtain m ms' where ms: "ms = m # ms'"
    by (cases ms) auto
  from assms(1) ms obtain src content where m: "dict_get m ''source'' = Inr src"
    "read_text fs src = Inr content"
    by (auto split: sum.splits)
  then have "source_matches fs [] src"
    by (simp add: source_matches_def py_lower_def)
  with scan_sources_members [OF assms(1)] m ms have "src \<in> set srcs"
    by auto
  then show ?thesis by auto
qed

lemma two_stories_without_b:
  "fst (compute_embeddings two_stories) = Inr ()
   \<and> load_store disk_without_b (init_processor :: int StoryProcessor) =
       (Inr (), \<lparr>index = Some (IndexFlatL2 1 [[10], [8]]), texts = [''Ann sings.'', ''Bo hums.''],
                 metadatas = [[(''source'', ''a.txt'')], [(''source'', ''b.txt'')]]\<rparr>)
   \<and> read_text disk_without_b ''a.txt'' = Inr ''Ann sings.''
   \<and> fst (lookup_on disk_without_b []) = Inl (FileNotFoundError ''b.txt'')"
  by code_simp

text \<open>
  C10, as the claim states it, fails when only some of the sources can be read: the store
  names \<^verbatim>\<open>a.txt\<close>, which is readable, and \<^verbatim>\<open>b.txt\<close>, which is gone, and the lookup of the
  empty name raises instead of assembling a record.
\<close>

theorem empty_name_unreadable_source_counterexample:
  "metadatas (snd (load_store disk_without_b (init_processor :: int StoryProcessor)))
     = [[(''source'', ''a.txt'')], [(''source'', ''b.txt'')]]
   \<and> read_text disk_without_b ''a.txt'' = Inr ''Ann sings.''
   \<and> fst (get_character_info demo_enc 0 disk_without_b init_processor [])
       = Inl (FileNotFoundError ''b.txt'')"
  using two_stories_without_b by (simp add: lookup_on_def)

text \<open>
  C10, amended. The empty name is contained in every source text that can be read. When
  the store references at least one source, the lookup of the empty name never returns
  absent: it assembles a record when the load, the four retrievals and the reading of
  every referenced source succeed, and raises an exception when one of them fails, an
  unreadable source beside readable ones included.
\<close>

theorem empty_name_never_absent:
  assumes "metadatas (snd (load_store fs st)) \<noteq> []"
  shows "(\<forall>st2. get_character_info enc pick fs st [] \<noteq> (Inr None, st2))
       \<and> (\<forall>src content. read_text fs src = Inr content \<longrightarrow> source_matches fs [] src)
       \<and> (fst (load_store fs st) = Inr ()
            \<and> \<not> isl (collect_chunks enc (snd (load_store fs st)) (queries []))
            \<and> sources_readable fs (metadatas (snd (load_store fs st)))
          \<longrightarrow> (\<exists>info. get_character_info enc pick fs st []
                        = (Inr (Some info), snd (load_store fs st))
                     \<and> name info = []))
       \<and> (\<not> (fst (load_store fs st) = Inr ()
               \<and> \<not> isl (collect_chunks enc (snd (load_store fs st)) (queries []))
               \<and> sources_readable fs (metadatas (snd (load_store fs st))))
          \<longrightarrow> isl (fst (get_character_info enc pick fs st [])))
       \<and> (\<forall>e. fst (load_store fs st) = Inr ()
               \<and> \<not> isl (collect_chunks enc (snd (load_store fs st)) (queries []))
               \<and> scan_sources fs [] [] (metadatas (snd (load_store fs st))) = Inl e
          \<longrightarrow> fst (get_character_info enc pick fs st []) = Inl e)"
proof (intro conjI allI impI)
  fix st2
  show "get_character_info enc pick fs st [] \<noteq> (Inr None, st2)"
  proof
    assume "get_character_info enc pick fs st [] = (Inr None, st2)"
    then have "lookup_resident enc pick fs (snd (load_store fs st)) [] = Inr None"
      by (auto simp: get_character_info_cases split: sum.splits)
    then have "scan_sources fs [] [] (metadatas (snd (load_store fs st))) = Inr []"
      by (rule lookup_resident_None)
    from scan_sources_empty_name [OF this assms] show False
      by simp
  qed
next
  fix src content
  assume "read_text fs src = Inr content"
  then show "source_matches fs [] src"
    by (simp add: source_matches_def py_lower_def)
next
  let ?st1 = "snd (load_store fs st)"
  assume a: "fst (load_store fs st) = Inr ()
            \<and> \<not> isl (collect_chunks enc ?st1 (queries []))
            \<and> sources_readable fs (metadatas ?st1)"
  then obtain rc where rc: "collect_chunks enc ?st1 (queries []) = Inr rc"
    using not_isl_Inr by blast
  from rc obtain c1 c2 c3 c4 where
    r: "rc = [(''story_title'', py_join '' '' c1), (''summary'', py_join '' '' c2),
              (''relations'', py_join '' '' c3), (''character_type'', py_join '' '' c4)]"
    by (rule collect_chunks_queries)
  from a obtain srcs where s: "scan_sources fs [] [] (metadatas ?st1) = Inr srcs"
    using scan_sources_returns by blast
  from scan_sources_empty_name [OF s assms] have ne: "srcs \<noteq> []" .
  from a rc r s ne
  show "\<exists>info. get_character_info enc pick fs st [] = (Inr (Some info), ?st1) \<and> name info = []"
    by (simp add: get_character_info_cases lookup_resident_def dict_get_def)
next
  assume "\<not> (fst (load_store fs st) = Inr ()
               \<and> \<not> isl (collect_chunks enc (snd (load_store fs st)) (queries []))
               \<and> sources_readable fs (metadatas (snd (load_store fs st))))"
  then show "isl (fst (get_character_info enc pick fs st []))"
    by (rule get_character_info_raises)
next
  fix e
  assume "fst (load_store fs st) = Inr ()
               \<and> \<not> isl (collect_chunks enc (snd (load_store fs st)) (queries []))
               \<and> scan_sources fs [] [] (metadatas (snd (load_store fs st))) = Inl e"
  then show "fst (get_character_info enc pick fs st []) = Inl e"
    by (simp add: get_character_info_cases lookup_resident_scan_error)
qed

lemma two_stories_lookup:
  "load_store (disk_after two_stories) (init_processor :: int StoryProcessor) =
       (Inr (), \<lparr>index = Some (IndexFlatL2 1 [[10], [8]]), texts = [''Ann sings.'', ''Bo hums.''],
                 metadatas = [[(''source'', ''a.txt'')], [(''source'', ''b.txt'')]]\<rparr>)
   \<and> \<not> isl (collect_chunks demo_enc
              \<lparr>index = Some (IndexFlatL2 1 [[10], [8]]), texts = [''Ann sings.'', ''Bo hums.''],
               metadatas = [[(''source'', ''a.txt'')], [(''source'', ''b.txt'')]]\<rparr> (queries []))
   \<and> sources_readable (disk_after two_stories)
        [[(''source'', ''a.txt'')], [(''source'', ''b.txt'')]]
   \<and> scan_sources disk_without_b [] []
        [[(''source'', ''a.txt'')], [(''source'', ''b.txt'')]] = Inl (FileNotFoundError ''b.txt'')"
  by code_simp

theorem empty_name_never_absent_witness:
  "metadatas (snd (load_store (disk_after two_stories) (init_processor :: int StoryProcessor)))
     = [[(''source'', ''a.txt'')], [(''source'', ''b.txt'')]]
   \<and> fst (get_character_info demo_enc 0 (disk_after two_stories) init_processor []) \<noteq> Inr None
   \<and> (\<exists>info. get_character_info demo_enc 0 (disk_after two_stories) init_processor []
               = (Inr (Some info), snd (load_store (disk_after two_stories) init_processor))
            \<and> name info = [])
   \<and> metadatas (snd (load_store disk_without_b (init_processor :: int StoryProcessor)))
       = [[(''source'', ''a.txt'')], [(''source'', ''b.txt'')]]
   \<and> scan_sources disk_without_b [] []
        (metadatas (snd (load_store disk_without_b (init_processor :: int StoryProcessor))))
       = Inl (FileNotFoundError ''b.txt'')
   \<and> fst (get_character_info demo_enc 0 disk_without_b init_processor [])
       = Inl (FileNotFoundError ''b.txt'')"
proof -
  let ?st1 = "\<lparr>index = Some (IndexFlatL2 1 [[10], [8 :: int]]), texts = [''Ann sings.'', ''Bo hums.''],
               metadatas = [[(''source'', ''a.txt'')], [(''source'', ''b.txt'')]]\<rparr>"
  from two_stories_lookup
  have l: "load_store (disk_after two_stories) (init_processor :: int StoryProcessor) = (Inr (), ?st1)"
    and c: "\<not> isl (collect_chunks demo_enc ?st1 (queries []))"
    and r: "sources_readable (disk_after two_stories)
              [[(''source'', ''a.txt'')], [(''source'', ''b.txt'')]]"
    and s2: "scan_sources disk_without_b [] []
               [[(''source'', ''a.txt'')], [(''source'', ''b.txt'')]]
             = Inl (FileNotFoundError ''b.txt'')"
    by blast+
  have h: "metadatas (snd (load_store (disk_after two_stories)
                             (init_processor :: int StoryProcessor))) \<noteq> []"
    unfolding l by simp
  note t = empty_name_never_absent [OF h, of demo_enc 0]
  from t have
    "fst (load_store (disk_after two_stories) (init_processor :: int StoryProcessor)) = Inr ()
       \<and> \<not> isl (collect_chunks demo_enc
                   (snd (load_store (disk_after two_stories) init_processor)) (queries []))
       \<and> sources_readable (disk_after two_stories)
           (metadatas (snd (load_store (disk_after two_stories)
                              (init_processor :: int StoryProcessor))))
     \<longrightarrow> (\<exists>info. get_character_info demo_enc 0 (disk_after two_stories) init_processor []
                   = (Inr (Some info), snd (load_store (disk_after two_stories) init_processor))
                \<and> name info = [])"
    by blast
  with c r have e: "\<exists>info. get_character_info demo_enc 0 (disk_after two_stories) init_processor []
                   = (Inr (Some info), snd (load_store (disk_after two_stories) init_processor))
                \<and> name info = []"
    unfolding l by simp
  then have ne: "fst (get_character_info demo_enc 0 (disk_after two_stories) init_processor [])
             \<noteq> Inr None"
    by auto
  from two_stories_without_b
  have l2: "load_store disk_without_b (init_processor :: int StoryProcessor) = (Inr (), ?st1)"
    by blast
  have h2: "metadatas (snd (load_store disk_without_b (init_processor :: int StoryProcessor))) \<noteq> []"
    unfolding l2 by simp
  note u = empty_name_never_absent [OF h2, of demo_enc 0]
  from u have
    "fst (load_store disk_without_b (init_processor :: int StoryProcessor)) = Inr ()
       \<and> \<not> isl (collect_chunks demo_enc
                   (snd (load_store disk_without_b init_processor)) (queries []))
       \<and> scan_sources disk_without_b [] []
           (metadatas (snd (load_store disk_without_b (init_processor :: int StoryProcessor))))
          = Inl (FileNotFoundError ''b.txt'')
     \<longrightarrow> fst (get_character_info demo_enc 0 disk_without_b init_processor [])
          = Inl (FileNotFoundError ''b.txt'')"
    by blast
  with c s2 have b: "fst (get_character_info demo_enc 0 disk_without_b init_processor [])
          = Inl (FileNotFoundError ''b.txt'')"
    unfolding l2 by simp
  from e ne b s2 show ?thesis
    unfolding l l2 by simp
qed

section \<open>The chunks cover the text\<close>

lemma covers_in_Nil [simp]: "covers_in l [] r C"
  by (simp add: covers_in_def)

lemma covers_in_mono: "covers_in l s r C \<Longrightarrow> set C \<subseteq> set C' \<Longrightarrow> covers_in l s r C'"
  unfolding covers_in_def by blast

lemma covers_in_context: "covers_in l s r C \<Longrightarrow> covers_in (l' @ l) s (r @ r') C"
  unfolding covers_in_def
  by (metis (no_types, opaque_lifting) append.assoc suffix_appendI prefix_prefix)

lemma covers_in_sub: "covers_in l (a @ s @ b) r C \<Longrightarrow> covers_in (l @ a) s (b @ r) C"
  unfolding covers_in_def
proof (intro allI impI)
  fix before c after
  assume h: "\<forall>before c after. a @ s @ b = before @ c # after \<and> \<not> py_isspace c \<longrightarrow>
        (\<exists>chunk\<in>set C. \<exists>u v. chunk = u @ c # v
            \<and> suffix u (l @ before) \<and> prefix v (after @ r))"
    and s: "s = before @ c # after \<and> \<not> py_isspace c"
  then have "a @ s @ b = (a @ before) @ c # (after @ b)" by simp
  with h s obtain chunk u v where "chunk \<in> set C" "chunk = u @ c # v"
    "suffix u (l @ a @ before)" "prefix v ((after @ b) @ r)"
    by blast
  then show "\<exists>chunk\<in>set C. \<exists>u v. chunk = u @ c # v
            \<and> suffix u ((l @ a) @ before) \<and> prefix v (after @ b @ r)"
    by auto
qed

lemma covers_in_append:
  assumes "covers_in l a (b @ r) C" "covers_in (l @ a) b r C"
  shows "covers_in l (a @ b) r C"
  unfolding covers_in_def
proof (intro allI impI)
  fix before c after
  assume s: "a @ b = before @ c # after \<and> \<not> py_isspace c"
  then consider (left) w where "a = before @ c # w" "after = w @ b"
    | (right) w where "before = a @ w" "b = w @ c # after"
    by (auto simp: append_eq_append_conv2 append_eq_Cons_conv Cons_eq_append_conv) 
  then show "\<exists>chunk\<in>set C. \<exists>u v. chunk = u @ c # v
            \<and> suffix u (l @ before) \<and> prefix v (after @ r)"
  proof cases
    case left
    with assms(1) s show ?thesis
      unfolding covers_in_def by (metis append.assoc)
  next
    case right
    with assms(2) s show ?thesis
      unfolding covers_in_def by (metis append.assoc)
  qed
qed

lemma covers_in_self: "covers_in [] s [] [s]"
  unfolding covers_in_def by auto

lemma dropWhile_keeps:
  "\<not> P c \<Longrightarrow> dropWhile P (before @ c # after) = dropWhile P before @ c # after"
  by (induction before) auto

lemma py_strip_keeps:
  assumes "\<not> py_isspace c"
  shows "py_strip (before @ c # after)
         = dropWhile py_isspace before @ c # rev (dropWhile py_isspace (rev after))"
proof -
  have "rev (dropWhile py_isspace before @ c # after)
        = rev after @ c # rev (dropWhile py_isspace before)"
    by simp
  then show ?thesis
    using assms by (simp add: py_strip_def dropWhile_keeps)
qed

lemma suffix_dropWhile: "suffix (dropWhile P xs) xs"
  by (metis suffixI takeWhile_dropWhile_id)

lemma prefix_rev_dropWhile: "prefix (rev (dropWhile P (rev xs))) xs"
  by (metis suffix_dropWhile suffix_to_prefix rev_rev_ident)

lemma covers_in_strip: "covers_in [] s [] (if py_strip s = [] then [] else [py_strip s])"
  unfolding covers_in_def
proof (intro allI impI)
  fix before c after
  assume s: "s = before @ c # after \<and> \<not> py_isspace c"
  then have e: "py_strip s
         = dropWhile py_isspace before @ c # rev (dropWhile py_isspace (rev after))"
    by (simp add: py_strip_keeps)
  then have "py_strip s \<noteq> []" by simp
  with e show "\<exists>chunk\<in>set (if py_strip s = [] then [] else [py_strip s]). \<exists>u v.
      chunk = u @ c # v \<and> suffix u ([] @ before) \<and> prefix v (after @ [])"
    using suffix_dropWhile prefix_rev_dropWhile by fastforce
qed


lemma py_join_empty_separator [simp]: "py_join [] parts = concat parts"
  by (induction parts rule: induct_list012) auto

lemma emit_doc_strip:
  "emit_doc current_doc [] =
     (if py_strip (concat current_doc) = [] then [] else [py_strip (concat current_doc)])"
  by (simp add: emit_doc_def join_docs_def Let_def)

lemma covers_in_emit_doc: "covers_in [] (concat current_doc) [] (emit_doc current_doc [])"
  by (simp only: emit_doc_strip covers_in_strip)

lemma pop_overlap_returns:
  "tot = int (length (concat current_doc)) \<Longrightarrow>
   \<exists>gone kept. pop_overlap ts 0 len tot current_doc = Inr (int (length (concat kept)), kept)
      \<and> current_doc = gone @ kept"
proof (induction current_doc arbitrary: tot)
  case Nil
  then show ?case by simp
next
  case (Cons doc0 rest)
  show ?case
  proof (cases "tot > int (chunk_overlap ts) \<or> (tot + len + 0 > int (chunk_size ts) \<and> tot > 0)")
    case True
    have "tot - (int (length doc0) + (if rest = [] then 0 else 0)) = int (length (concat rest))"
      using Cons.prems by simp
    from Cons.IH [OF this] obtain gone kept where
      "pop_overlap ts 0 len (tot - (int (length doc0) + (if rest = [] then 0 else 0))) rest
         = Inr (int (length (concat kept)), kept)" "rest = gone @ kept"
      by blast
    with True have "pop_overlap ts 0 len tot (doc0 # rest) = Inr (int (length (concat kept)), kept)
        \<and> doc0 # rest = (doc0 # gone) @ kept"
      by simp
    then show ?thesis by blast
  next
    case False
    then have "pop_overlap ts 0 len tot (doc0 # rest) = Inr (int (length (concat (doc0 # rest))), doc0 # rest)
        \<and> doc0 # rest = [] @ (doc0 # rest)"
      using Cons.prems by auto
    then show ?thesis by blast
  qed
qed

lemma merge_step_returns:
  assumes "tot = int (length (concat current_doc))"
  shows "\<exists>emitted gone kept.
           merge_step ts [] d (docs, current_doc, tot) =
             Inr (docs @ emitted, kept @ [d], int (length (concat (kept @ [d]))))
         \<and> current_doc = gone @ kept
         \<and> covers_in [] (concat gone) (concat kept) emitted"
proof (cases "tot + int (length d) + (if current_doc = [] then 0 else 0) > int (chunk_size ts)
              \<and> current_doc \<noteq> []")
  case True
  from pop_overlap_returns [OF assms, of ts "int (length d)"] obtain gone kept where
    p: "pop_overlap ts 0 (int (length d)) tot current_doc = Inr (int (length (concat kept)), kept)"
      "current_doc = gone @ kept"
    by blast
  with True have "merge_step ts [] d (docs, current_doc, tot) =
             Inr (docs @ emit_doc current_doc [], kept @ [d],
                  int (length (concat (kept @ [d]))))"
    by (simp add: merge_step_def)
  moreover have "covers_in [] (concat gone) (concat kept) (emit_doc current_doc [])"
    using covers_in_sub [of "[]" "[]" "concat gone" "concat kept" "[]" "emit_doc current_doc []"]
      covers_in_emit_doc [of current_doc] p(2)
    by simp
  ultimately show ?thesis
    using p(2) by blast
next
  case False
  then have "merge_step ts [] d (docs, current_doc, tot) =
             Inr (docs @ [], current_doc @ [d], int (length (concat (current_doc @ [d]))))"
    using assms by (auto simp: merge_step_def)
  moreover have "current_doc = [] @ current_doc
                 \<and> covers_in [] (concat ([] :: string list)) (concat current_doc) []"
    by simp
  ultimately show ?thesis by blast
qed

lemma merge_loop_covers:
  assumes "tot = int (length (concat current_doc))"
    and "covers_in [] done (concat current_doc @ concat ds) docs"
  shows "\<exists>docs1 kept done1.
           merge_loop ts [] (docs, current_doc, tot) ds =
             Inr (docs1, kept, int (length (concat kept)))
         \<and> done @ concat current_doc @ concat ds = done1 @ concat kept
         \<and> covers_in [] done1 (concat kept) docs1"
  using assms
proof (induction ds arbitrary: docs current_doc tot "done")
  case Nil
  then show ?case by auto
next
  case (Cons d ds)
  from merge_step_returns [OF Cons.prems(1), of ts d docs] obtain emitted gone kept where
    m: "merge_step ts [] d (docs, current_doc, tot) =
          Inr (docs @ emitted, kept @ [d], int (length (concat (kept @ [d]))))"
       "current_doc = gone @ kept"
       "covers_in [] (concat gone) (concat kept) emitted"
    by blast
  have c1: "covers_in [] done (concat gone @ concat (kept @ [d]) @ concat ds) (docs @ emitted)"
    using Cons.prems(2) m(2) by (auto intro: covers_in_mono)
  have "covers_in ([] @ done) (concat gone) (concat kept @ d @ concat ds) emitted"
    using covers_in_context [OF m(3), of "done" "d @ concat ds"] by simp
  then have c2: "covers_in (done @ concat gone) [] (concat (kept @ [d]) @ concat ds) (docs @ emitted)
        \<and> covers_in ([] @ done) (concat gone) (concat (kept @ [d]) @ concat ds) (docs @ emitted)"
    by (auto intro: covers_in_mono)
  have "covers_in [] (done @ concat gone) (concat (kept @ [d]) @ concat ds) (docs @ emitted)"
    using covers_in_append [of "[]" "done" "concat gone" "concat (kept @ [d]) @ concat ds"
        "docs @ emitted"] c1 c2
    by simp
  from Cons.IH [OF refl this] obtain docs1 kept1 done1 where
    "merge_loop ts [] (docs @ emitted, kept @ [d], int (length (concat (kept @ [d])))) ds =
       Inr (docs1, kept1, int (length (concat kept1)))"
    "(done @ concat gone) @ concat (kept @ [d]) @ concat ds = done1 @ concat kept1"
    "covers_in [] done1 (concat kept1) docs1"
    by blast
  with m(1,2) have "merge_loop ts [] (docs, current_doc, tot) (d # ds) =
             Inr (docs1, kept1, int (length (concat kept1)))
         \<and> done @ concat current_doc @ concat (d # ds) = done1 @ concat kept1
         \<and> covers_in [] done1 (concat kept1) docs1"
    by simp
  then show ?case by blast
qed

lemma merge_splits_covers:
  "\<exists>merged. merge_splits ts splits [] = Inr merged \<and> covers_in [] (concat splits) [] merged"
proof -
  from merge_loop_covers [of 0 "[]" "[]" splits "[]" ts] obtain docs1 kept done1 where
    m: "merge_loop ts [] ([], [], 0) splits = Inr (docs1, kept, int (length (concat kept)))"
       "concat splits = done1 @ concat kept"
       "covers_in [] done1 (concat kept) docs1"
    by auto
  have "covers_in (done1 @ []) (concat kept) ([] @ []) (emit_doc kept [])"
    by (rule covers_in_context) (rule covers_in_emit_doc)
  with m(3) have "covers_in [] (done1 @ concat kept) [] (docs1 @ emit_doc kept [])"
    by (intro covers_in_append) (auto intro: covers_in_mono)
  with m(1,2) show ?thesis
    by (simp add: merge_splits_def)
qed

lemma flush_good_covers:
  "\<exists>merged. flush_good ts good_splits = Inr merged \<and> covers_in [] (concat good_splits) [] merged"
  using merge_splits_covers [of ts good_splits]
  by (auto simp: flush_good_def)


lemma split_scan_concat:
  "separator \<noteq> [] \<Longrightarrow> concat (split_scan separator skip piece text) = piece @ drop skip text"
proof (induction separator skip piece "text" rule: split_scan.induct)
  case (1 separator skip piece)
  show ?case by simp
next
  case (2 separator skip piece c cs)
  then show ?case by simp
next
  case (3 separator piece c cs)
  show ?case
  proof (cases "prefix separator (c # cs)")
    case True
    then obtain rest where r: "c # cs = separator @ rest"
      by (auto simp: prefix_def)
    with 3 obtain s' where s': "separator = c # s'" "cs = s' @ rest"
      by (cases separator) auto
    from 3 True have "concat (split_scan separator 0 piece (c # cs))
                      = piece @ separator @ drop (length separator - 1) cs"
      by simp
    with s' show ?thesis by simp
  next
    case False
    with 3 show ?thesis by simp
  qed
qed

lemma concat_filter_nonempty: "concat (filter (\<lambda>s. s \<noteq> []) xs) = concat xs"
  by (induction xs) auto

lemma concat_singletons: "concat (map (\<lambda>c. [c]) text) = text"
  by (induction "text") auto

lemma split_text_with_regex_concat: "concat (split_text_with_regex text separator) = text"
  by (simp add: split_text_with_regex_def concat_filter_nonempty split_scan_concat
      concat_singletons)

lemma split_rec_loop_covers:
  "separators \<noteq> [] \<longrightarrow>
     (\<exists>chunks. split_text_rec ts separators text = Inr chunks \<and> covers_in [] text [] chunks)"
  "\<forall>done. covers_in [] done (concat good_splits @ concat splits) final_chunks \<longrightarrow>
     (\<exists>chunks. split_loop ts new_separators final_chunks good_splits splits = Inr chunks
        \<and> covers_in [] (done @ concat good_splits @ concat splits) [] chunks)"
proof (induction ts separators "text" and ts new_separators final_chunks good_splits splits
    rule: split_text_rec_split_loop.induct)
  case (1 ts inp)
  show ?case by simp
next
  case (2 ts s rest inp)
  show ?case
  proof (cases "choose_separator (s # rest) inp")
    case None
    from "2.IH"(1) [OF None]
    have "covers_in [] [] (concat [] @ concat (split_text_with_regex inp (last (s # rest)))) []
      \<longrightarrow> (\<exists>chunks. split_loop ts [] [] [] (split_text_with_regex inp (last (s # rest)))
                = Inr chunks
            \<and> covers_in [] ([] @ concat [] @ concat (split_text_with_regex inp (last (s # rest))))
                [] chunks)"
      by blast
    with None show ?thesis
      by (simp add: split_text_with_regex_concat)
  next
    case (Some p)
    obtain separator new_separators where p: "p = (separator, new_separators)"
      by (cases p)
    from "2.IH"(2) [OF Some [unfolded p] refl]
    have "covers_in [] [] (concat [] @ concat (split_text_with_regex inp separator)) []
      \<longrightarrow> (\<exists>chunks. split_loop ts new_separators [] [] (split_text_with_regex inp separator)
                = Inr chunks
            \<and> covers_in [] ([] @ concat [] @ concat (split_text_with_regex inp separator))
                [] chunks)"
      by blast
    with Some p show ?thesis
      by (simp add: split_text_with_regex_concat)
  qed
next
  case (3 ts new_separators final_chunks good_splits)
  show ?case
  proof (intro allI impI)
    fix done'
    assume c: "covers_in [] done' (concat good_splits @ concat []) final_chunks"
    from flush_good_covers [of ts good_splits] obtain merged where
      m: "flush_good ts good_splits = Inr merged" "covers_in [] (concat good_splits) [] merged"
      by blast
    have "covers_in (done' @ []) (concat good_splits) ([] @ []) merged"
      using m(2) by (rule covers_in_context)
    with c have "covers_in [] (done' @ concat good_splits) [] (final_chunks @ merged)"
      by (intro covers_in_append) (auto intro: covers_in_mono)
    with m(1) show "\<exists>chunks. split_loop ts new_separators final_chunks good_splits [] = Inr chunks
        \<and> covers_in [] (done' @ concat good_splits @ concat []) [] chunks"
      by simp
  qed
next
  case (4 ts new_separators final_chunks good_splits p ps)
  show ?case
  proof (intro allI impI)
    fix done'
    assume c: "covers_in [] done' (concat good_splits @ concat (p # ps)) final_chunks"
    show "\<exists>chunks. split_loop ts new_separators final_chunks good_splits (p # ps) = Inr chunks
        \<and> covers_in [] (done' @ concat good_splits @ concat (p # ps)) [] chunks"
    proof (cases "length p < chunk_size ts")
      case True
      from c have "covers_in [] done' (concat (good_splits @ [p]) @ concat ps) final_chunks"
        by simp
      with "4.IH"(1) [OF True] obtain chunks where
        "split_loop ts new_separators final_chunks (good_splits @ [p]) ps = Inr chunks"
        "covers_in [] (done' @ concat (good_splits @ [p]) @ concat ps) [] chunks"
        by blast
      with True show ?thesis by simp
    next
      case False
      from flush_good_covers [of ts good_splits] obtain merged where
        m: "flush_good ts good_splits = Inr merged" "covers_in [] (concat good_splits) [] merged"
        by blast
      have cm: "covers_in (done' @ []) (concat good_splits) ([] @ p @ concat ps) merged"
        using m(2) by (rule covers_in_context)
      have step: "covers_in [] ((done' @ concat good_splits) @ p) (concat [] @ concat ps)
                    (final_chunks @ merged @ other)"
        if o: "covers_in [] p [] other" for other
      proof -
        have "covers_in ((done' @ concat good_splits) @ []) p ([] @ concat ps) other"
          using o by (rule covers_in_context)
        then have b: "covers_in ([] @ done' @ concat good_splits) p (concat ps)
                        (final_chunks @ merged @ other)"
          by (auto intro: covers_in_mono)
        have a1: "covers_in [] done' (concat good_splits @ p @ concat ps) (final_chunks @ merged)"
          using c by (auto intro: covers_in_mono)
        have a2: "covers_in ([] @ done') (concat good_splits) (p @ concat ps)
                    (final_chunks @ merged)"
          using cm by (auto intro: covers_in_mono)
        have "covers_in [] (done' @ concat good_splits) (p @ concat ps) (final_chunks @ merged)"
          using a1 a2 by (rule covers_in_append)
        then have a: "covers_in [] (done' @ concat good_splits) (p @ concat ps)
                        (final_chunks @ merged @ other)"
          by (auto intro: covers_in_mono)
        have "covers_in [] ((done' @ concat good_splits) @ p) (concat ps)
                          (final_chunks @ merged @ other)"
          using a b by (rule covers_in_append)
        then show ?thesis by simp
      qed
      show ?thesis
      proof (cases "new_separators = []")
        case True
        from step [OF covers_in_self] "4.IH"(2) [OF False m(1) True] obtain chunks where
          "split_loop ts new_separators (final_chunks @ merged @ [p]) [] ps = Inr chunks"
          "covers_in [] (((done' @ concat good_splits) @ p) @ concat [] @ concat ps) [] chunks"
          by blast
        with False True m(1) show ?thesis by simp
      next
        case ne: False
        from "4.IH"(3) [OF False m(1) ne] ne obtain other where
          o: "split_text_rec ts new_separators p = Inr other" "covers_in [] p [] other"
          by blast
        from step [OF o(2)] "4.IH"(4) [OF False m(1) ne o(1)] obtain chunks where
          "split_loop ts new_separators (final_chunks @ merged @ other) [] ps = Inr chunks"
          "covers_in [] (((done' @ concat good_splits) @ p) @ concat [] @ concat ps) [] chunks"
          by blast
        with False ne m(1) o(1) show ?thesis by simp
      qed
    qed
  qed
qed


lemma merge_loop_fits:
  "tot = int (length (concat current_doc)) \<Longrightarrow>
   length (concat current_doc) + length (concat ds) \<le> chunk_size ts \<Longrightarrow>
   merge_loop ts [] (docs, current_doc, tot) ds =
     Inr (docs, current_doc @ ds, int (length (concat (current_doc @ ds))))"
proof (induction ds arbitrary: current_doc tot)
  case Nil
  then show ?case by simp
next
  case (Cons d ds)
  from Cons.prems have "merge_step ts [] d (docs, current_doc, tot) =
      Inr (docs, current_doc @ [d], int (length (concat (current_doc @ [d]))))"
    by (auto simp: merge_step_def)
  moreover have "merge_loop ts [] (docs, current_doc @ [d], int (length (concat (current_doc @ [d])))) ds
      = Inr (docs, (current_doc @ [d]) @ ds, int (length (concat ((current_doc @ [d]) @ ds))))"
    using Cons.prems by (intro Cons.IH) auto
  ultimately show ?case by simp
qed

lemma merge_splits_fits:
  "length (concat splits) \<le> chunk_size ts \<Longrightarrow> merge_splits ts splits [] = Inr (emit_doc splits [])"
  using merge_loop_fits [of 0 "[]" splits ts "[]"]
  by (simp add: merge_splits_def)

lemma split_loop_all_short:
  "list_all (\<lambda>p. length p < chunk_size ts) ps \<Longrightarrow>
   split_loop ts new_separators final_chunks good_splits ps =
     (case flush_good ts (good_splits @ ps) of
        Inl e \<Rightarrow> Inl e
      | Inr merged \<Rightarrow> Inr (final_chunks @ merged))"
  by (induction ps arbitrary: good_splits) auto

lemma piece_length: "p \<in> set ps \<Longrightarrow> length p \<le> length (concat ps)"
  by (induction ps) auto

lemma split_loop_short_text:
  assumes "concat splits = inp" "length inp < chunk_size ts"
  shows "split_loop ts new_separators [] [] splits
         = Inr (if py_strip inp = [] then [] else [py_strip inp])"
proof -
  have "list_all (\<lambda>p. length p < chunk_size ts) splits"
    using assms piece_length [of _ splits] by (fastforce simp: list_all_iff)
  then have l: "split_loop ts new_separators [] [] splits =
     (case flush_good ts splits of Inl e \<Rightarrow> Inl e | Inr merged \<Rightarrow> Inr merged)"
    using split_loop_all_short [of ts splits new_separators "[]" "[]"]
    by (simp split: sum.splits)
  show ?thesis
  proof (cases "splits = []")
    case True
    with assms(1) have "inp = []" by simp
    with l True show ?thesis
      by (simp add: flush_good_def py_strip_def)
  next
    case False
    with l assms show ?thesis
      by (simp add: flush_good_def merge_splits_fits emit_doc_strip)
  qed
qed

lemma split_text_rec_short:
  assumes "separators \<noteq> []" "length inp < chunk_size ts"
  shows "split_text_rec ts separators inp = Inr (if py_strip inp = [] then [] else [py_strip inp])"
proof -
  from assms(1) obtain s rest where s: "separators = s # rest"
    by (cases separators) auto
  show ?thesis
    unfolding s
    using assms(2)
    by (simp add: split_loop_short_text split_text_with_regex_concat split: option.splits)
qed

text \<open>
  C6, as the claim states it, fails: the text of one space is shorter than the chunk size
  and yields no chunk at all, so its character is in no chunk and the chunks are not
  exactly one.
\<close>

theorem split_text_blank_counterexample:
  "length '' '' < chunk_size text_splitter \<and> CHR '' '' \<in> set '' '' \<and> split_text '' '' = Inr []"
  by code_simp

text \<open>
  C6, amended. The splitter returns for every input text, and every character of the
  input that is not whitespace lies in at least one chunk, the chunk being a piece of the
  text around that occurrence. A text shorter than the chunk size (1000 characters)
  yields the text stripped of the whitespace at its ends as the only chunk, and no chunk
  when nothing is left.
\<close>

theorem split_text_covers:
  "\<exists>chunks. split_text inp = Inr chunks
     \<and> covers inp chunks
     \<and> chunk_size text_splitter = 1000
     \<and> (length inp < chunk_size text_splitter
        \<longrightarrow> chunks = (if py_strip inp = [] then [] else [py_strip inp]))"
proof -
  have d: "default_separators \<noteq> []"
    by (simp add: default_separators_def)
  with split_rec_loop_covers(1) [of default_separators text_splitter inp]
  obtain chunks where c: "split_text inp = Inr chunks" "covers inp chunks"
    by (auto simp: split_text_def covers_def)
  have "chunks = (if py_strip inp = [] then [] else [py_strip inp])"
    if "length inp < chunk_size text_splitter"
    using split_text_rec_short [OF d that] c(1) by (simp add: split_text_def)
  moreover have "chunk_size text_splitter = 1000"
    by (simp add: text_splitter_def)
  ultimately show ?thesis
    using c by blast
qed

theorem split_text_covers_witness:
  "length '' Ann sings. '' < chunk_size text_splitter
   \<and> split_text '' Ann sings. '' = Inr [''Ann sings.'']
   \<and> covers '' Ann sings. '' [''Ann sings.'']"
proof -
  have e: "length '' Ann sings. '' < chunk_size text_splitter
           \<and> split_text '' Ann sings. '' = Inr [''Ann sings.'']"
    by code_simp
  with split_text_covers [of "'' Ann sings. ''"] show ?thesis
    by auto
qed

end
